theory Spec2Isabelle
  imports Main "HOL-Library.Sublist" "HOL-Library.Word"
begin

section \<open>The to-do list manager of src/js/app.js\<close>

text \<open>
  The development embeds the state-management and persistence layer of
  \<^verbatim>\<open>src/js/app.js\<close>: \<^verbatim>\<open>Utils.validateTodo\<close>, the class \<^verbatim>\<open>TodoItem\<close>,
  \<^verbatim>\<open>StorageService\<close> and \<^verbatim>\<open>TodoManager\<close>, and the edit handler of
  \<^verbatim>\<open>UIController\<close> as far as it acts on the store.

  Conventions of the embedding.
  \<^item> A JavaScript string is a list of 16-bit code units; \<^verbatim>\<open>length\<close> is the length of
    the list. \<open>str\<close> turns an ASCII literal into such a list.
  \<^item> The fields of a \<^verbatim>\<open>TodoItem\<close> have the types the JSDoc comments give them:
    strings for id and text, a boolean for completed. A timestamp is the number of
    milliseconds that \<^verbatim>\<open>new Date()\<close> read; it stands for the ISO-8601 string that
    \<^verbatim>\<open>toISOString\<close> makes of it (an injective, order-preserving rendering).
  \<^item> Everything outside the program is a value of the record \<open>env\<close>: the clock, the
    random generator, the one slot of localStorage the program uses, the built-ins
    \<^verbatim>\<open>JSON.parse\<close>, \<^verbatim>\<open>JSON.stringify\<close> and \<^verbatim>\<open>String.prototype.toLowerCase\<close>, and the
    console. An operation takes the environment and returns the updated one. The
    built-ins are fields of the environment, so that what is proved holds whatever they
    compute.
  \<^item> A thrown exception is a value returned with \<open>Inl\<close>.
\<close>

subsection \<open>Strings\<close>

type_synonym code_unit = "16 word"

type_synonym jsstring = "code_unit list"

definition str :: "string \<Rightarrow> jsstring" where
  "str s = map (\<lambda>c. of_nat (of_char c)) s"

text \<open>
  The white space and line terminators of ECMAScript: TAB, LF, VT, FF, CR, SPACE,
  NO-BREAK SPACE, the other space separators of Unicode, LINE SEPARATOR, PARAGRAPH
  SEPARATOR and the byte order mark.
\<close>

definition isWhiteSpace :: "code_unit \<Rightarrow> bool" where
  "isWhiteSpace u =
     (u \<in> {0x9, 0xA, 0xB, 0xC, 0xD, 0x20, 0xA0, 0x1680, 0x2000, 0x2001, 0x2002, 0x2003,
            0x2004, 0x2005, 0x2006, 0x2007, 0x2008, 0x2009, 0x200A, 0x2028, 0x2029, 0x202F,
            0x205F, 0x3000, 0xFEFF})"

text \<open>\<^verbatim>\<open>String.prototype.trim\<close>: white space is removed at both ends.\<close>

definition trim :: "jsstring \<Rightarrow> jsstring" where
  "trim s = rev (dropWhile isWhiteSpace (rev (dropWhile isWhiteSpace s)))"

text \<open>\<^verbatim>\<open>String.prototype.includes\<close>: does \<open>sub\<close> occur in \<open>s\<close> as a contiguous run?\<close>

fun includes_str :: "jsstring \<Rightarrow> jsstring \<Rightarrow> bool" where
  "includes_str [] sub = (sub = [])"
| "includes_str (x # xs) sub = (prefix sub (x # xs) \<or> includes_str xs sub)"

text \<open>The decimal digits of a number, as a template literal prints it.\<close>

fun decimal :: "nat \<Rightarrow> jsstring" where
  "decimal n =
     (if n < 10 then [of_nat (48 + n)]
      else decimal (n div 10) @ [of_nat (48 + n mod 10)])"

declare decimal.simps [simp del]

subsection \<open>Configuration and errors\<close>

definition MAX_TODO_LENGTH :: nat where
  "MAX_TODO_LENGTH = 100"

text \<open>
  The three \<^verbatim>\<open>Error\<close> objects that the program throws, and their messages. The
  letters with accents are written as code units: U+00E3 in "nao", U+00E1 in "maximo".
\<close>

datatype error = EmptyInput | TooLong | NotFound

fun message :: "error \<Rightarrow> jsstring" where
  "message EmptyInput = str ''A tarefa n'' @ [0xE3] @ str ''o pode estar vazia.''"
| "message TooLong =
     str ''A tarefa deve ter no m'' @ [0xE1] @ str ''ximo '' @ decimal MAX_TODO_LENGTH
     @ str '' caracteres.''"
| "message NotFound = str ''Tarefa n'' @ [0xE3] @ str ''o encontrada.''"

text \<open>The exception of the engine that reading the storage can raise.\<close>

datatype builtin_error = TypeError

subsection \<open>Utils.validateTodo\<close>

definition validateTodo :: "jsstring \<Rightarrow> error + jsstring" where
  "validateTodo txt =
     (let trimmed = trim txt
      in if trimmed = [] then Inl EmptyInput
         else if length trimmed > MAX_TODO_LENGTH then Inl TooLong
         else Inr trimmed)"

subsection \<open>The environment\<close>

text \<open>
  A task as \<^verbatim>\<open>toJSON\<close> writes it and as \<^verbatim>\<open>JSON.parse\<close> returns it. \<open>None\<close> is a
  property that is missing, \<^verbatim>\<open>null\<close> or, for \<open>j_text\<close>, not a string. For the fields
  read through \<^verbatim>\<open>||\<close> a falsy timestamp or completed flag is \<open>None\<close> too.
\<close>

record plain =
  j_id :: "jsstring option"
  j_text :: "jsstring option"
  j_completed :: "bool option"
  j_createdAt :: "nat option"
  j_updatedAt :: "nat option"

text \<open>
  What \<^verbatim>\<open>JSON.parse\<close> returns: an array of items or some other value. An item is an
  object, \<^verbatim>\<open>null\<close>, or a value on which every property read gives \<^verbatim>\<open>undefined\<close>
  (a number, a string, a boolean, an array).
\<close>

datatype item = Obj plain | JNull | JOther

datatype parsed = JArray "item list" | NotArray

text \<open>What the program prints: \<^verbatim>\<open>console.error\<close> with its first argument, and
  \<^verbatim>\<open>Utils.showToast\<close> with its message and type.\<close>

datatype effect = Console_error jsstring | Toast jsstring jsstring

record env =
  clock :: "nat \<Rightarrow> nat"
  ticks :: nat
  random :: "nat \<Rightarrow> jsstring"
  draws :: nat
  storage :: "jsstring option"
  setItem_ok :: "jsstring \<Rightarrow> bool"
  JSON_parse :: "jsstring \<Rightarrow> parsed option"
  JSON_stringify :: "plain list \<Rightarrow> jsstring"
  toLowerCase :: "jsstring \<Rightarrow> jsstring"
  console :: "effect list"

text \<open>
  \<open>clock w k\<close> is the \<open>k\<close>-th reading of the clock and \<open>ticks w\<close> the number of readings
  made so far; \<open>random w k\<close> is the text that
  \<^verbatim>\<open>Math.random().toString(36).substr(2, 9)\<close> gives at the \<open>k\<close>-th draw.
  \<open>storage w\<close> is the value under \<^verbatim>\<open>CONFIG.STORAGE_KEY\<close>, \<open>setItem_ok w d\<close> tells
  whether \<^verbatim>\<open>setItem\<close> accepts \<open>d\<close> (it throws when the quota is exceeded),
  \<open>JSON_parse w d = None\<close> means that \<^verbatim>\<open>JSON.parse\<close> throws on \<open>d\<close>, and
  \<open>toLowerCase w s\<close> is \<^verbatim>\<open>s.toLowerCase()\<close>.
\<close>

definition Date_now :: "env \<Rightarrow> nat \<times> env" where
  "Date_now w = (clock w (ticks w), w\<lparr>ticks := Suc (ticks w)\<rparr>)"

definition Math_random :: "env \<Rightarrow> jsstring \<times> env" where
  "Math_random w = (random w (draws w), w\<lparr>draws := Suc (draws w)\<rparr>)"

definition console_error :: "jsstring \<Rightarrow> env \<Rightarrow> env" where
  "console_error msg w = w\<lparr>console := console w @ [Console_error msg]\<rparr>"

definition showToast :: "jsstring \<Rightarrow> jsstring \<Rightarrow> env \<Rightarrow> env" where
  "showToast msg type w = w\<lparr>console := console w @ [Toast msg type]\<rparr>"

definition generateId :: "env \<Rightarrow> jsstring \<times> env" where
  "generateId w =
     (let (t, w1) = Date_now w;
          (r, w2) = Math_random w1
      in (str ''todo_'' @ decimal t @ str ''_'' @ r, w2))"

subsection \<open>TodoItem\<close>

record todo =
  todo_id :: jsstring
  "text" :: jsstring
  completed :: bool
  createdAt :: nat
  updatedAt :: nat

text \<open>\<^verbatim>\<open>id || Utils.generateId()\<close>: a missing or empty id is replaced.\<close>

definition id_or_generate :: "jsstring option \<Rightarrow> env \<Rightarrow> jsstring \<times> env" where
  "id_or_generate i w =
     (case i of
        None \<Rightarrow> generateId w
      | Some s \<Rightarrow> if s = [] then generateId w else (s, w))"

text \<open>The constructor, called with a string.\<close>

definition TodoItem :: "jsstring \<Rightarrow> jsstring option \<Rightarrow> env \<Rightarrow> todo \<times> env" where
  "TodoItem txt i w =
     (let (i', w1) = id_or_generate i w;
          (c, w2) = Date_now w1;
          (u, w3) = Date_now w2
      in (\<lparr>todo_id = i', text = trim txt, completed = False,
           createdAt = c, updatedAt = u\<rparr>, w3))"

definition toggleComplete :: "todo \<Rightarrow> env \<Rightarrow> todo \<times> env" where
  "toggleComplete t w =
     (let (u, w1) = Date_now w
      in (t\<lparr>completed := \<not> completed t, updatedAt := u\<rparr>, w1))"

definition updateText :: "jsstring \<Rightarrow> todo \<Rightarrow> env \<Rightarrow> (error + todo) \<times> env" where
  "updateText newText t w =
     (case validateTodo newText of
        Inl e \<Rightarrow> (Inl e, w)
      | Inr txt \<Rightarrow>
          (let (u, w1) = Date_now w
           in (Inr (t\<lparr>text := txt, updatedAt := u\<rparr>), w1)))"

definition toJSON :: "todo \<Rightarrow> plain" where
  "toJSON t =
     \<lparr>j_id = Some (todo_id t), j_text = Some (text t), j_completed = Some (completed t),
      j_createdAt = Some (createdAt t), j_updatedAt = Some (updatedAt t)\<rparr>"

text \<open>
  \<^verbatim>\<open>TodoItem.fromJSON\<close>. The constructor settles the id first and then calls
  \<^verbatim>\<open>trim\<close> on the text, which throws a TypeError when the text is not a string.
\<close>

definition or_now :: "nat option \<Rightarrow> env \<Rightarrow> nat \<times> env" where
  "or_now t w = (case t of None \<Rightarrow> Date_now w | Some v \<Rightarrow> (v, w))"

definition fromJSON :: "plain \<Rightarrow> env \<Rightarrow> (builtin_error + todo) \<times> env" where
  "fromJSON d w =
     (case j_text d of
        None \<Rightarrow> (Inl TypeError, snd (id_or_generate (j_id d) w))
      | Some txt \<Rightarrow>
          (let (t, w1) = TodoItem txt (j_id d) w;
               t1 = t\<lparr>completed := (case j_completed d of None \<Rightarrow> False | Some b \<Rightarrow> b)\<rparr>;
               (c, w2) = or_now (j_createdAt d) w1;
               (u, w3) = or_now (j_updatedAt d) w2
           in (Inr (t1\<lparr>createdAt := c, updatedAt := u\<rparr>), w3)))"

subsection \<open>StorageService\<close>

text \<open>
  \<^verbatim>\<open>item => TodoItem.fromJSON(item)\<close>. On \<^verbatim>\<open>null\<close> the read of \<^verbatim>\<open>data.text\<close> throws
  at once. On a number, a string, a boolean or an array both \<^verbatim>\<open>data.text\<close> and
  \<^verbatim>\<open>data.id\<close> are \<^verbatim>\<open>undefined\<close>, so the constructor generates an id before
  \<^verbatim>\<open>text.trim()\<close> throws: that is \<open>fromJSON\<close> on an object without properties.
\<close>

definition no_properties :: plain where
  "no_properties =
     \<lparr>j_id = None, j_text = None, j_completed = None, j_createdAt = None, j_updatedAt = None\<rparr>"

definition fromJSON_item :: "item \<Rightarrow> env \<Rightarrow> (builtin_error + todo) \<times> env" where
  "fromJSON_item it w =
     (case it of
        JNull \<Rightarrow> (Inl TypeError, w)
      | JOther \<Rightarrow> fromJSON no_properties w
      | Obj d \<Rightarrow> fromJSON d w)"

text \<open>\<^verbatim>\<open>parsed.map(...)\<close>: the items in order, stopping at the first exception.\<close>

fun map_fromJSON :: "item list \<Rightarrow> env \<Rightarrow> (builtin_error + todo list) \<times> env" where
  "map_fromJSON [] w = (Inr [], w)"
| "map_fromJSON (it # its) w =
     (case fromJSON_item it w of
        (Inl e, w1) \<Rightarrow> (Inl e, w1)
      | (Inr t, w1) \<Rightarrow>
          (case map_fromJSON its w1 of
             (Inl e, w2) \<Rightarrow> (Inl e, w2)
           | (Inr ts, w2) \<Rightarrow> (Inr (t # ts), w2)))"

text \<open>The \<^verbatim>\<open>catch\<close> block of \<^verbatim>\<open>getTodos\<close>.\<close>

definition getTodos_catch :: "env \<Rightarrow> todo list \<times> env" where
  "getTodos_catch w =
     ([], showToast (str ''Erro ao carregar as tarefas. Iniciando com lista vazia.'')
            (str ''error'') (console_error (str ''Error loading todos from storage:'') w))"

text \<open>
  \<^verbatim>\<open>StorageService.getTodos\<close>. \<^verbatim>\<open>getItem\<close> is taken not to throw; the guard
  \<^verbatim>\<open>if (!data) return []\<close> holds for a missing value and for the empty string.
\<close>

definition getTodos :: "env \<Rightarrow> todo list \<times> env" where
  "getTodos w =
     (case storage w of
        None \<Rightarrow> ([], w)
      | Some data \<Rightarrow>
          if data = [] then ([], w)
          else (case JSON_parse w data of
                  None \<Rightarrow> getTodos_catch w
                | Some NotArray \<Rightarrow> getTodos_catch w
                | Some (JArray its) \<Rightarrow>
                    (case map_fromJSON its w of
                       (Inl e, w1) \<Rightarrow> getTodos_catch w1
                     | (Inr ts, w1) \<Rightarrow> (ts, w1))))"

text \<open>
  \<^verbatim>\<open>StorageService.saveTodos\<close>, to which \<^verbatim>\<open>TodoManager.saveTodos\<close> hands the
  collection. \<^verbatim>\<open>setItem\<close> throws when \<open>setItem_ok\<close> is false.
\<close>

definition saveTodos :: "todo list \<Rightarrow> env \<Rightarrow> env" where
  "saveTodos ts w =
     (let data = JSON_stringify w (map toJSON ts)
      in if setItem_ok w data then w\<lparr>storage := Some data\<rparr>
         else showToast (str ''Erro ao salvar as tarefas.'') (str ''error'')
                (console_error (str ''Error saving todos to storage:'') w))"

subsection \<open>TodoManager\<close>

record manager =
  todos :: "todo list"
  filteredTodos :: "todo list"
  currentFilter :: jsstring
  currentSearch :: jsstring
  editingTodoId :: "jsstring option"

text \<open>\<^verbatim>\<open>Array.prototype.findIndex\<close>, with \<open>None\<close> for -1. \<^verbatim>\<open>find\<close> returns the
  object at that index, and a method called on it changes the array in that place.\<close>

fun findIndex :: "('a \<Rightarrow> bool) \<Rightarrow> 'a list \<Rightarrow> nat option" where
  "findIndex p [] = None"
| "findIndex p (x # xs) =
     (if p x then Some 0 else map_option Suc (findIndex p xs))"

text \<open>\<open>applyFilters\<close> reads the environment for \<^verbatim>\<open>toLowerCase\<close> only.\<close>

definition applyFilters :: "env \<Rightarrow> manager \<Rightarrow> manager" where
  "applyFilters w m =
     (let filtered = todos m;
          filtered1 =
            (if currentSearch m \<noteq> []
             then filter (\<lambda>t. includes_str (toLowerCase w (text t)) (currentSearch m)) filtered
             else filtered);
          filtered2 =
            (if currentFilter m = str ''pending'' then filter (\<lambda>t. \<not> completed t) filtered1
             else if currentFilter m = str ''completed''
               then filter (\<lambda>t. completed t) filtered1
             else filtered1)
      in m\<lparr>filteredTodos := filtered2\<rparr>)"

definition loadTodos :: "manager \<times> env \<Rightarrow> manager \<times> env" where
  "loadTodos s =
     (case s of (m, w) \<Rightarrow>
        (let (ts, w1) = getTodos w
         in (applyFilters w1 (m\<lparr>todos := ts\<rparr>), w1)))"

definition TodoManager :: "env \<Rightarrow> manager \<times> env" where
  "TodoManager w =
     loadTodos (\<lparr>todos = [], filteredTodos = [], currentFilter = str ''all'',
                 currentSearch = [], editingTodoId = None\<rparr>, w)"

definition addTodo :: "jsstring \<Rightarrow> manager \<times> env \<Rightarrow> (error + todo) \<times> manager \<times> env" where
  "addTodo txt s =
     (case s of (m, w) \<Rightarrow>
        (case validateTodo txt of
           Inl e \<Rightarrow> (Inl e, m, w)
         | Inr vt \<Rightarrow>
             (let (t, w1) = TodoItem vt None w;
                  m1 = m\<lparr>todos := t # todos m\<rparr>;
                  w2 = saveTodos (todos m1) w1
              in (Inr t, applyFilters w2 m1, w2))))"

definition updateTodo ::
  "jsstring \<Rightarrow> jsstring \<Rightarrow> manager \<times> env \<Rightarrow> (error + unit) \<times> manager \<times> env" where
  "updateTodo i newText s =
     (case s of (m, w) \<Rightarrow>
        (case findIndex (\<lambda>t. todo_id t = i) (todos m) of
           None \<Rightarrow> (Inl NotFound, m, w)
         | Some k \<Rightarrow>
             (case updateText newText (todos m ! k) w of
                (Inl e, w1) \<Rightarrow> (Inl e, m, w1)
              | (Inr t, w1) \<Rightarrow>
                  (let m1 = m\<lparr>todos := (todos m)[k := t]\<rparr>;
                       w2 = saveTodos (todos m1) w1
                   in (Inr (), applyFilters w2 m1, w2)))))"

definition toggleTodo :: "jsstring \<Rightarrow> manager \<times> env \<Rightarrow> (error + unit) \<times> manager \<times> env" where
  "toggleTodo i s =
     (case s of (m, w) \<Rightarrow>
        (case findIndex (\<lambda>t. todo_id t = i) (todos m) of
           None \<Rightarrow> (Inl NotFound, m, w)
         | Some k \<Rightarrow>
             (let (t, w1) = toggleComplete (todos m ! k) w;
                  m1 = m\<lparr>todos := (todos m)[k := t]\<rparr>;
                  w2 = saveTodos (todos m1) w1
              in (Inr (), applyFilters w2 m1, w2))))"

text \<open>\<^verbatim>\<open>splice(index, 1)\<close> removes the element at the index.\<close>

definition deleteTodo :: "jsstring \<Rightarrow> manager \<times> env \<Rightarrow> (error + unit) \<times> manager \<times> env" where
  "deleteTodo i s =
     (case s of (m, w) \<Rightarrow>
        (case findIndex (\<lambda>t. todo_id t = i) (todos m) of
           None \<Rightarrow> (Inl NotFound, m, w)
         | Some k \<Rightarrow>
             (let m1 = m\<lparr>todos := take k (todos m) @ drop (Suc k) (todos m)\<rparr>;
                  w2 = saveTodos (todos m1) w
              in (Inr (), applyFilters w2 m1, w2))))"

definition setSearch :: "env \<Rightarrow> jsstring \<Rightarrow> manager \<Rightarrow> manager" where
  "setSearch w searchTerm m =
     applyFilters w (m\<lparr>currentSearch := trim (toLowerCase w searchTerm)\<rparr>)"

definition setFilter :: "env \<Rightarrow> jsstring \<Rightarrow> manager \<Rightarrow> manager" where
  "setFilter w f m = applyFilters w (m\<lparr>currentFilter := f\<rparr>)"

text \<open>The object that \<^verbatim>\<open>getStats\<close> returns; its field \<^verbatim>\<open>completed\<close> is
  \<open>completed_count\<close> here, the name \<open>completed\<close> being the field of a task.\<close>

record stats =
  total :: nat
  pending :: nat
  completed_count :: nat

definition getStats :: "manager \<Rightarrow> stats" where
  "getStats m =
     (let total = length (todos m);
          completed = length (filter (\<lambda>t. completed t) (todos m));
          pending = total - completed
      in \<lparr>total = total, pending = pending, completed_count = completed\<rparr>)"

definition startEditing :: "jsstring \<Rightarrow> manager \<Rightarrow> manager" where
  "startEditing i m = m\<lparr>editingTodoId := Some i\<rparr>"

definition stopEditing :: "manager \<Rightarrow> manager" where
  "stopEditing m = m\<lparr>editingTodoId := None\<rparr>"

text \<open>\<^verbatim>\<open>getEditingTodo\<close>: \<^verbatim>\<open>null\<close> or \<^verbatim>\<open>undefined\<close>, both \<open>None\<close> here, when the slot
  is empty, holds the empty string, or holds an id that no task has.\<close>

definition getEditingTodo :: "manager \<Rightarrow> todo option" where
  "getEditingTodo m =
     (case editingTodoId m of
        None \<Rightarrow> None
      | Some i \<Rightarrow> if i = [] then None else find (\<lambda>t. todo_id t = i) (todos m))"

subsection \<open>UIController: the edit handler\<close>

text \<open>
  \<^verbatim>\<open>hideEditForm\<close> and \<^verbatim>\<open>handleEditTodo\<close>, as far as they act on the store and the
  console. What they do to the document (classes, focus, \<^verbatim>\<open>render\<close>, which only reads
  the store) is left out and taken not to throw. The first argument of \<open>handleEditTodo\<close> is the value of the
  edit input, \<open>None\<close> when the element is missing, so that
  \<^verbatim>\<open>this.elements.editInput?.value.trim()\<close> is \<^verbatim>\<open>undefined\<close>.
\<close>

definition hideEditForm :: "manager \<Rightarrow> manager" where
  "hideEditForm m = stopEditing m"

definition handleEditTodo :: "jsstring option \<Rightarrow> manager \<times> env \<Rightarrow> manager \<times> env" where
  "handleEditTodo editInput s =
     (case s of (m, w) \<Rightarrow>
        (case editInput of
           None \<Rightarrow> (m, w)
         | Some v \<Rightarrow>
             (let newText = trim v
              in case getEditingTodo m of
                   None \<Rightarrow> (m, w)
                 | Some editingTodo \<Rightarrow>
                     if newText = [] then (m, w)
                     else (case updateTodo (todo_id editingTodo) newText (m, w) of
                             (Inr u, m1, w1) \<Rightarrow>
                               (hideEditForm m1,
                                showToast (str ''Tarefa atualizada com sucesso!'')
                                  (str ''success'') w1)
                           | (Inl e, m1, w1) \<Rightarrow>
                               (m1, showToast (message e) (str ''error'') w1)))))"

subsection \<open>The mutating operations as one function\<close>

text \<open>
  The four operations that change the collection, gathered so that a property of all of
  them is stated once. \<open>mutate\<close> calls the operation and forgets the task that
  \<open>addTodo\<close> returns.
\<close>

datatype mutation = Add jsstring | Update jsstring jsstring | Toggle jsstring | Delete jsstring

fun mutate :: "mutation \<Rightarrow> manager \<times> env \<Rightarrow> (error + unit) \<times> manager \<times> env" where
  "mutate (Add txt) s =
     (case addTodo txt s of (Inl e, s') \<Rightarrow> (Inl e, s') | (Inr t, s') \<Rightarrow> (Inr (), s'))"
| "mutate (Update i txt) s = updateTodo i txt s"
| "mutate (Toggle i) s = toggleTodo i s"
| "mutate (Delete i) s = deleteTodo i s"

text \<open>
  The store after a sequence of mutations, whether they succeed or fail. The other
  operations (\<open>setSearch\<close>, \<open>setFilter\<close>, \<open>startEditing\<close>, \<open>stopEditing\<close>) do not
  write the collection.
\<close>

definition run :: "mutation list \<Rightarrow> manager \<times> env \<Rightarrow> manager \<times> env" where
  "run mus s = foldl (\<lambda>s mu. snd (mutate mu s)) s mus"

subsection \<open>The derived view, in the words of the specification\<close>

text \<open>
  The specification describes the visible view as the collection filtered by the search
  term (a case-insensitive substring of the text) and then by the status, the term
  being normalised by trimming and lowercasing. These definitions follow that wording,
  for a lowercasing function \<open>lower\<close>: a term is a case-insensitive substring of a text
  when some run of the text equals the term up to letter case. They are compared with
  \<open>applyFilters\<close> below.
\<close>

datatype status = Status_all | Status_pending | Status_completed

fun status_name :: "status \<Rightarrow> jsstring" where
  "status_name Status_all = str ''all''"
| "status_name Status_pending = str ''pending''"
| "status_name Status_completed = str ''completed''"

definition normalize_spec :: "(jsstring \<Rightarrow> jsstring) \<Rightarrow> jsstring \<Rightarrow> jsstring" where
  "normalize_spec lower term = lower (trim term)"

definition ci_substring :: "(jsstring \<Rightarrow> jsstring) \<Rightarrow> jsstring \<Rightarrow> jsstring \<Rightarrow> bool" where
  "ci_substring lower term txt = (\<exists>u. sublist u txt \<and> lower u = lower term)"

fun status_holds :: "status \<Rightarrow> todo \<Rightarrow> bool" where
  "status_holds Status_all t = True"
| "status_holds Status_pending t = (\<not> completed t)"
| "status_holds Status_completed t = completed t"

definition filter_by_search ::
  "(jsstring \<Rightarrow> jsstring) \<Rightarrow> jsstring \<Rightarrow> todo list \<Rightarrow> todo list" where
  "filter_by_search lower term coll = filter (\<lambda>t. ci_substring lower term (text t)) coll"

definition filter_by_status :: "status \<Rightarrow> todo list \<Rightarrow> todo list" where
  "filter_by_status st coll = filter (status_holds st) coll"

definition visible_spec ::
  "(jsstring \<Rightarrow> jsstring) \<Rightarrow> todo list \<Rightarrow> jsstring \<Rightarrow> status \<Rightarrow> todo list" where
  "visible_spec lower coll term st =
     filter_by_status st (filter_by_search lower (normalize_spec lower term) coll)"

text \<open>
  The view in the words of the amended claim: the tasks whose lowercased text contains
  the lowercased and trimmed term, filtered by the status.
\<close>

definition lowercased_view ::
  "(jsstring \<Rightarrow> jsstring) \<Rightarrow> todo list \<Rightarrow> jsstring \<Rightarrow> status \<Rightarrow> todo list" where
  "lowercased_view lower coll term st =
     filter_by_status st (filter (\<lambda>t. sublist (trim (lower term)) (lower (text t))) coll)"

text \<open>
  \<open>lower\<close> acts unit by unit on the strings over the alphabet \<open>A\<close>: it maps \<open>f\<close> over
  them, and \<open>f\<close> stays in \<open>A\<close>, is idempotent and keeps white space apart from the rest.
\<close>

definition unitwise ::
  "(jsstring \<Rightarrow> jsstring) \<Rightarrow> (code_unit \<Rightarrow> code_unit) \<Rightarrow> code_unit set \<Rightarrow> bool" where
  "unitwise lower f A =
     ((\<forall>s. set s \<subseteq> A \<longrightarrow> lower s = map f s) \<and>
      (\<forall>u \<in> A. f u \<in> A \<and> f (f u) = f u \<and> isWhiteSpace (f u) = isWhiteSpace u))"

subsection \<open>Sequences of view operations\<close>

datatype view_op = SetSearch jsstring | SetFilter jsstring

fun view_step :: "env \<Rightarrow> manager \<Rightarrow> view_op \<Rightarrow> manager" where
  "view_step w m (SetSearch term) = setSearch w term m"
| "view_step w m (SetFilter f) = setFilter w f m"

subsection \<open>Invariants of the data\<close>

text \<open>
  What the constructor and \<open>updateText\<close> guarantee of every task they make: the id is
  not empty and the text is trimmed.
\<close>

definition well_formed :: "todo \<Rightarrow> bool" where
  "well_formed t = (todo_id t \<noteq> [] \<and> trim (text t) = text t)"

text \<open>
  The stored values that \<open>getTodos\<close> decodes: arrays whose items are all objects with
  a string under \<^verbatim>\<open>text\<close>. On every other value \<^verbatim>\<open>parsed.map\<close> or \<^verbatim>\<open>text.trim\<close>
  throws.
\<close>

fun decodable_item :: "item \<Rightarrow> bool" where
  "decodable_item JNull = False"
| "decodable_item JOther = False"
| "decodable_item (Obj d) = (j_text d \<noteq> None)"

fun decodable :: "parsed \<Rightarrow> bool" where
  "decodable NotArray = False"
| "decodable (JArray its) = list_all decodable_item its"

definition unparseable :: "env \<Rightarrow> jsstring \<Rightarrow> bool" where
  "unparseable w data =
     (case JSON_parse w data of None \<Rightarrow> True | Some p \<Rightarrow> \<not> decodable p)"

definition warnings :: "env \<Rightarrow> nat" where
  "warnings w = length (filter (\<lambda>e. case e of Toast msg ty \<Rightarrow> True | Console_error msg \<Rightarrow> False)
                   (console w))"

subsection \<open>Sample data\<close>

text \<open>
  The lowercasing of the sample runs. It moves the capital letters A..Z, U+00C0..U+00DE
  (without the multiplication sign) and U+0391..U+03A9 up by 32, and writes a capital
  sigma (U+03A3) that follows a cased letter and is not followed by one as a final
  sigma (U+03C2). That is what \<^verbatim>\<open>toLowerCase\<close> computes on the texts of the sample
  runs, and on every text whose cased letters are those that \<open>cased\<close> lists and that
  holds no case-ignorable character (apostrophe, full stop, combining mark, ...).
\<close>

definition lower_unit :: "code_unit \<Rightarrow> code_unit" where
  "lower_unit u =
     (if (0x41 \<le> u \<and> u \<le> 0x5A) \<or> (0xC0 \<le> u \<and> u \<le> 0xDE \<and> u \<noteq> 0xD7)
         \<or> (0x391 \<le> u \<and> u \<le> 0x3A9 \<and> u \<noteq> 0x3A2)
      then u + 0x20 else u)"

definition cased :: "code_unit \<Rightarrow> bool" where
  "cased u =
     ((0x41 \<le> u \<and> u \<le> 0x5A) \<or> (0x61 \<le> u \<and> u \<le> 0x7A)
      \<or> u = 0xAA \<or> u = 0xB5 \<or> u = 0xBA
      \<or> (0xC0 \<le> u \<and> u \<le> 0xFF \<and> u \<noteq> 0xD7 \<and> u \<noteq> 0xF7)
      \<or> (0x391 \<le> u \<and> u \<le> 0x3A9 \<and> u \<noteq> 0x3A2) \<or> (0x3B1 \<le> u \<and> u \<le> 0x3C9))"

fun lower_from :: "bool \<Rightarrow> jsstring \<Rightarrow> jsstring" where
  "lower_from after_letter [] = []"
| "lower_from after_letter [u] =
     [if u = 0x3A3 \<and> after_letter then 0x3C2 else lower_unit u]"
| "lower_from after_letter (u # v # us) =
     (if u = 0x3A3 \<and> after_letter \<and> \<not> cased v then 0x3C2 else lower_unit u)
     # lower_from (cased u) (v # us)"

definition sample_toLowerCase :: "jsstring \<Rightarrow> jsstring" where
  "sample_toLowerCase s = lower_from False s"

text \<open>
  An environment for the sample runs: a clock that advances by one millisecond at every
  reading, no stored value, a storage that accepts every write. The sample runs never
  read back what they wrote, so the two JSON built-ins are stand-ins here: a parser that
  rejects every text and a printer that prints every array alike.
\<close>

definition sample_env :: env where
  "sample_env =
     \<lparr>clock = (\<lambda>k. 1700000000000 + k), ticks = 0,
      random = (\<lambda>k. str ''k3x9q2m7p''), draws = 0,
      storage = None, setItem_ok = (\<lambda>d. True),
      JSON_parse = (\<lambda>d. None), JSON_stringify = (\<lambda>ps. str ''[...]''),
      toLowerCase = sample_toLowerCase,
      console = []\<rparr>"

definition task_milk :: todo where
  "task_milk =
     \<lparr>todo_id = str ''todo_1699999999000_a1b2c3d4e'', text = str ''Buy milk'',
      completed = False, createdAt = 1699999999000, updatedAt = 1699999999000\<rparr>"

definition task_dog :: todo where
  "task_dog =
     \<lparr>todo_id = str ''todo_1699999998000_z9y8x7w6v'', text = str ''Walk dog'',
      completed = True, createdAt = 1699999998000, updatedAt = 1699999998500\<rparr>"

definition sample_manager :: manager where
  "sample_manager =
     \<lparr>todos = [task_milk, task_dog], filteredTodos = [task_milk, task_dog],
      currentFilter = str ''all'', currentSearch = [], editingTodoId = None\<rparr>"

text \<open>The store while the first task is being edited.\<close>

definition editing_manager :: manager where
  "editing_manager = startEditing (todo_id task_milk) sample_manager"

text \<open>
  A task whose text is the Greek name KOSTAS in capital letters (kappa, omega, sigma,
  tau, alpha, sigma), a store that holds it, and the search term KOS (kappa, omega,
  sigma), the first three letters of that text. \<^verbatim>\<open>toLowerCase\<close> ends the term with a
  final sigma and writes the third letter of the text as a plain small sigma.
\<close>

definition kostas :: jsstring where
  "kostas = [0x39A, 0x3A9, 0x3A3, 0x3A4, 0x391, 0x3A3]"

definition kos :: jsstring where
  "kos = [0x39A, 0x3A9, 0x3A3]"

definition task_kostas :: todo where
  "task_kostas =
     \<lparr>todo_id = str ''todo_1699999997000_g4h5j6k7l'', text = kostas,
      completed = False, createdAt = 1699999997000, updatedAt = 1699999997000\<rparr>"

definition greek_manager :: manager where
  "greek_manager =
     \<lparr>todos = [task_kostas], filteredTodos = [task_kostas],
      currentFilter = str ''all'', currentSearch = [], editingTodoId = None\<rparr>"

text \<open>
  An environment whose clock stands still: every reading falls into the same
  millisecond. \<open>task_now\<close> is the task that \<open>addTodo\<close> makes of "Buy milk" there;
  \<open>added\<close> is the store after that call on a new manager, \<open>added_once\<close> and
  \<open>added_twice\<close> are the stores after toggling the task once and twice.
\<close>

definition frozen_env :: env where
  "frozen_env = sample_env\<lparr>clock := (\<lambda>k. 1700000000000)\<rparr>"

definition task_now :: todo where
  "task_now =
     \<lparr>todo_id = str ''todo_1700000000000_k3x9q2m7p'', text = str ''Buy milk'',
      completed = False, createdAt = 1700000000000, updatedAt = 1700000000000\<rparr>"

definition added :: "manager \<times> env" where
  "added = snd (addTodo (str ''Buy milk'') (TodoManager frozen_env))"

definition added_once :: "manager \<times> env" where
  "added_once = snd (toggleTodo (todo_id task_now) added)"

definition added_twice :: "manager \<times> env" where
  "added_twice = snd (toggleTodo (todo_id task_now) added_once)"

text \<open>An environment whose stored value is the empty string, on which \<^verbatim>\<open>JSON.parse\<close>
  throws.\<close>

definition blank_env :: env where
  "blank_env = sample_env\<lparr>storage := Some []\<rparr>"

text \<open>An environment whose stored value is a text that is not JSON.\<close>

definition corrupt_env :: env where
  "corrupt_env = sample_env\<lparr>storage := Some (str ''{not json'')\<rparr>"

text \<open>
  An environment whose stored value is an array of two tasks with the same id, with the
  parser reading that text; \<open>quoted\<close> puts a text between double quotes.
\<close>

definition quoted :: "string \<Rightarrow> jsstring" where
  "quoted s = [0x22] @ str s @ [0x22]"

definition twin_blob :: jsstring where
  "twin_blob =
     str ''[{'' @ quoted ''id'' @ str '':'' @ quoted ''a'' @ str '','' @ quoted ''text''
     @ str '':'' @ quoted ''x'' @ str ''},{'' @ quoted ''id'' @ str '':'' @ quoted ''a''
     @ str '','' @ quoted ''text'' @ str '':'' @ quoted ''y'' @ str ''}]''"

definition twin_items :: "item list" where
  "twin_items =
     [Obj \<lparr>j_id = Some (str ''a''), j_text = Some (str ''x''), j_completed = None,
           j_createdAt = None, j_updatedAt = None\<rparr>,
      Obj \<lparr>j_id = Some (str ''a''), j_text = Some (str ''y''), j_completed = None,
           j_createdAt = None, j_updatedAt = None\<rparr>]"

definition twin_env :: env where
  "twin_env =
     sample_env\<lparr>storage := Some twin_blob,
                JSON_parse := (\<lambda>d. if d = twin_blob then Some (JArray twin_items) else None)\<rparr>"

text \<open>The store that a new manager loads from it, and the store after deleting the id
  \<open>a\<close> once.\<close>

definition twin_store :: "manager \<times> env" where
  "twin_store = TodoManager twin_env"

definition twin_once :: "manager \<times> env" where
  "twin_once = snd (deleteTodo (str ''a'') twin_store)"

section \<open>Properties\<close>

subsection \<open>Strings and lists\<close>

lemma of_char_unit_inj: "((of_nat (of_char x) :: code_unit) = of_nat (of_char y)) = (x = y)"
proof
  assume "(of_nat (of_char x) :: code_unit) = of_nat (of_char y)"
  then have "unat (of_nat (of_char x) :: code_unit) = unat (of_nat (of_char y) :: code_unit)"
    by simp
  moreover have "(of_char x :: nat) < 65536" "(of_char y :: nat) < 65536"
    using less_trans [OF nat_of_char_less_256 [of x], of 65536]
          less_trans [OF nat_of_char_less_256 [of y], of 65536] by simp_all
  ultimately have "(of_char x :: nat) = of_char y"
    by (simp add: unat_of_nat)
  then show "x = y" by simp
next
  assume "x = y"
  then show "(of_nat (of_char x) :: code_unit) = of_nat (of_char y)" by simp
qed

lemma str_eq_iff [simp]: "(str s = str t) = (s = t)"
proof -
  have "inj (\<lambda>c. (of_nat (of_char c) :: code_unit))"
    by (rule injI) (simp add: of_char_unit_inj)
  then show ?thesis unfolding str_def by simp
qed

lemma str_Nil [simp]: "str [] = []" "(str s = []) = (s = [])" "([] = str s) = (s = [])"
  by (auto simp: str_def)

lemma dropWhile_id: "xs = [] \<or> \<not> P (hd xs) \<Longrightarrow> dropWhile P xs = xs"
  by (cases xs) auto

lemma strip_idem:
  "rev (dropWhile P (rev (dropWhile P (rev (dropWhile P (rev (dropWhile P xs))))))) =
   rev (dropWhile P (rev (dropWhile P xs)))"
proof -
  define d where "d = dropWhile P xs"
  define e where "e = dropWhile P (rev d)"
  have d: "d = [] \<or> \<not> P (hd d)" unfolding d_def using hd_dropWhile by blast
  have e: "e = [] \<or> \<not> P (hd e)" unfolding e_def using hd_dropWhile by blast
  have "dropWhile P (rev e) = rev e"
  proof (cases "d = []")
    case True then show ?thesis by (simp add: e_def)
  next
    case False
    with d have nP: "\<not> P (hd d)" by simp
    from False have "hd d \<in> set (rev d)" by simp
    then have "e \<noteq> []" unfolding e_def using nP
      by (metis dropWhile_eq_Nil_conv)
    moreover have "\<exists>ys. rev d = ys @ e" unfolding e_def
      by (metis takeWhile_dropWhile_id)
    ultimately have "last e = last (rev d)" by auto
    then have "hd (rev e) = hd d" using \<open>e \<noteq> []\<close> False by (simp add: hd_rev last_rev)
    then show ?thesis using nP by (intro dropWhile_id) simp
  qed
  then have "dropWhile P (rev (dropWhile P (rev e))) = e"
    using e by (simp add: dropWhile_id)
  then show ?thesis unfolding d_def e_def by simp
qed

lemma trim_idem: "trim (trim s) = trim s"
  unfolding trim_def by (rule strip_idem)

lemma includes_str_sublist: "includes_str s sub = sublist sub s"
  by (induction s) (auto simp: sublist_Cons_right)

lemma findIndex_None: "(findIndex p xs = None) = (\<forall>x \<in> set xs. \<not> p x)"
  by (induction xs) auto

lemma findIndex_Some:
  "findIndex p xs = Some k \<Longrightarrow> k < length xs \<and> p (xs ! k) \<and> (\<forall>j < k. \<not> p (xs ! j))"
proof (induction xs arbitrary: k)
  case Nil then show ?case by simp
next
  case (Cons x xs)
  show ?case
  proof (cases "p x")
    case True with Cons.prems show ?thesis by simp
  next
    case False
    with Cons.prems obtain k' where k': "findIndex p xs = Some k'" "k = Suc k'" by auto
    from Cons.IH [OF k'(1)] False k'(2) show ?thesis by (auto simp: less_Suc_eq_0_disj)
  qed
qed

subsection \<open>Adding a task\<close>

lemma trim_unchanged:
  "s = [] \<or> (\<not> isWhiteSpace (hd s) \<and> \<not> isWhiteSpace (last s)) \<Longrightarrow> trim s = s"
  unfolding trim_def
  by (cases "s = []") (simp_all add: dropWhile_id hd_rev)

lemma trim_replicate_a: "trim (str (replicate n (CHR ''a''))) = str (replicate n (CHR ''a''))"
  by (rule trim_unchanged) (cases n; simp add: isWhiteSpace_def str_def)

lemma TodoItem_fields:
  "text (fst (TodoItem txt i w)) = trim txt \<and> \<not> completed (fst (TodoItem txt i w))"
  unfolding TodoItem_def by (simp add: split_beta Let_def)

lemma addTodo_Inr:
  "validateTodo txt = Inr vt \<Longrightarrow>
   addTodo txt (m, w) =
     (Inr (fst (TodoItem vt None w)),
      applyFilters (saveTodos (fst (TodoItem vt None w) # todos m) (snd (TodoItem vt None w)))
        (m\<lparr>todos := fst (TodoItem vt None w) # todos m\<rparr>),
      saveTodos (fst (TodoItem vt None w) # todos m) (snd (TodoItem vt None w)))"
  unfolding addTodo_def by (simp add: split_beta Let_def)

lemma addTodo_Inl: "validateTodo txt = Inl e \<Longrightarrow> addTodo txt (m, w) = (Inl e, m, w)"
  unfolding addTodo_def by simp

lemma todos_applyFilters [simp]: "todos (applyFilters w m) = todos m"
  unfolding applyFilters_def by (simp add: Let_def)

lemma validateTodo_Inr:
  "(validateTodo txt = Inr vt) = (vt = trim txt \<and> 1 \<le> length (trim txt) \<and> length (trim txt) \<le> 100)"
  unfolding validateTodo_def MAX_TODO_LENGTH_def Let_def
  by (cases "trim txt") auto

lemma validateTodo_Inl:
  "(validateTodo txt = Inl e) =
   ((e = EmptyInput \<and> trim txt = []) \<or> (e = TooLong \<and> 100 < length (trim txt)))"
  unfolding validateTodo_def MAX_TODO_LENGTH_def Let_def
  by (cases "trim txt") auto

text \<open>
  Claim C1. For every input text whose trimmed length is between 1 and 100, \<open>addTodo\<close>
  succeeds and returns the created task; the text of that task is the trimmed input,
  its completed flag is false, and the collection afterwards is the new task followed
  by the tasks that were there before, in their order.
\<close>

theorem addTodo_valid_text:
  assumes "1 \<le> length (trim t)" and "length (trim t) \<le> 100"
  shows "\<exists>task m' w'. addTodo t (m, w) = (Inr task, m', w') \<and> text task = trim t
           \<and> completed task = False \<and> todos m' = task # todos m"
proof -
  from assms have v: "validateTodo t = Inr (trim t)" by (simp add: validateTodo_Inr)
  show ?thesis
    unfolding addTodo_Inr [OF v] by (simp add: TodoItem_fields trim_idem)
qed

theorem addTodo_valid_text_witness:
  "1 \<le> length (trim (str ''  Buy milk '')) \<and> length (trim (str ''  Buy milk '')) \<le> 100 \<and>
   (\<exists>task m' w'. addTodo (str ''  Buy milk '') (sample_manager, sample_env) = (Inr task, m', w')
      \<and> text task = str ''Buy milk'' \<and> completed task = False
      \<and> todos m' = task # [task_milk, task_dog])"
proof -
  have t: "trim (str ''  Buy milk '') = str ''Buy milk''"
    by (simp add: trim_def isWhiteSpace_def str_def)
  have h1: "1 \<le> length (trim (str ''  Buy milk ''))"
    and h2: "length (trim (str ''  Buy milk '')) \<le> 100"
    by (simp_all add: t) (simp_all add: str_def)
  from addTodo_valid_text [OF h1 h2, of sample_manager sample_env] h1 h2
  show ?thesis by (simp add: t sample_manager_def)
qed

text \<open>
  Claim C3. \<open>addTodo\<close> fails with \<open>EmptyInput\<close> exactly when the trimmed text is empty
  (so for the empty text and for three spaces), and with \<open>TooLong\<close> exactly when the
  trimmed length exceeds 100 (a text of 100 characters is accepted, one of 101 is
  refused); whenever it fails, the store and the environment, hence the collection, are
  what they were.
\<close>

theorem addTodo_rejects:
  "(trim t = [] \<longrightarrow> addTodo t (m, w) = (Inl EmptyInput, m, w)) \<and>
   (100 < length (trim t) \<longrightarrow> addTodo t (m, w) = (Inl TooLong, m, w)) \<and>
   (fst (addTodo t (m, w)) = Inl EmptyInput) = (trim t = []) \<and>
   (fst (addTodo t (m, w)) = Inl TooLong) = (100 < length (trim t)) \<and>
   (\<forall>e. fst (addTodo t (m, w)) = Inl e \<longrightarrow> snd (addTodo t (m, w)) = (m, w)) \<and>
   addTodo (str '''') (m, w) = (Inl EmptyInput, m, w) \<and>
   addTodo (str ''   '') (m, w) = (Inl EmptyInput, m, w) \<and>
   (\<exists>task m' w'. addTodo (str (replicate 100 (CHR ''a''))) (m, w) = (Inr task, m', w')) \<and>
   addTodo (str (replicate 101 (CHR ''a''))) (m, w) = (Inl TooLong, m, w)"
proof -
  have a: "trim t = [] \<longrightarrow> addTodo t (m, w) = (Inl EmptyInput, m, w)"
    by (simp add: addTodo_Inl validateTodo_Inl)
  have b: "100 < length (trim t) \<longrightarrow> addTodo t (m, w) = (Inl TooLong, m, w)"
    by (simp add: addTodo_Inl validateTodo_Inl)
  have cd: "(fst (addTodo t (m, w)) = Inl EmptyInput) = (trim t = []) \<and>
            (fst (addTodo t (m, w)) = Inl TooLong) = (100 < length (trim t))"
  proof (cases "validateTodo t")
    case (Inl e)
    with validateTodo_Inl [of t e] show ?thesis by (auto simp: addTodo_Inl)
  next
    case (Inr vt)
    with validateTodo_Inr [of t vt] show ?thesis by (auto simp: addTodo_Inr)
  qed
  then have c: "(fst (addTodo t (m, w)) = Inl EmptyInput) = (trim t = [])"
    and d: "(fst (addTodo t (m, w)) = Inl TooLong) = (100 < length (trim t))"
    by simp_all
  have e: "\<forall>e. fst (addTodo t (m, w)) = Inl e \<longrightarrow> snd (addTodo t (m, w)) = (m, w)"
    by (cases "validateTodo t") (auto simp: addTodo_Inl addTodo_Inr)
  have f: "addTodo (str '''') (m, w) = (Inl EmptyInput, m, w)"
    by (rule addTodo_Inl) (simp add: validateTodo_Inl trim_def)
  have g: "addTodo (str ''   '') (m, w) = (Inl EmptyInput, m, w)"
    by (rule addTodo_Inl) (simp add: validateTodo_Inl trim_def isWhiteSpace_def str_def)
  have "validateTodo (str (replicate 100 (CHR ''a''))) = Inr (str (replicate 100 (CHR ''a'')))"
    by (simp add: validateTodo_Inr trim_replicate_a) (simp add: str_def)
  then have h: "\<exists>task m' w'. addTodo (str (replicate 100 (CHR ''a''))) (m, w) = (Inr task, m', w')"
    by (simp add: addTodo_Inr)
  have i: "addTodo (str (replicate 101 (CHR ''a''))) (m, w) = (Inl TooLong, m, w)"
    by (rule addTodo_Inl) (simp add: validateTodo_Inl trim_replicate_a, simp add: str_def)
  from a b c d e f g h i show ?thesis by blast
qed

theorem addTodo_rejects_witness:
  "trim (str ''  '') = [] \<and>
   addTodo (str ''  '') (sample_manager, sample_env) = (Inl EmptyInput, sample_manager, sample_env) \<and>
   100 < length (trim (str (replicate 101 (CHR ''a'')))) \<and>
   addTodo (str (replicate 101 (CHR ''a''))) (sample_manager, sample_env)
     = (Inl TooLong, sample_manager, sample_env)"
proof -
  have h1: "trim (str ''  '') = []" by (simp add: trim_def isWhiteSpace_def str_def)
  have h2: "100 < length (trim (str (replicate 101 (CHR ''a''))))"
    by (simp add: trim_replicate_a) (simp add: str_def)
  from addTodo_rejects [of "str ''  ''" sample_manager sample_env] h1
  have r1: "addTodo (str ''  '') (sample_manager, sample_env)
              = (Inl EmptyInput, sample_manager, sample_env)"
    by blast
  from addTodo_rejects [of "str (replicate 101 (CHR ''a''))" sample_manager sample_env] h2
  have r2: "addTodo (str (replicate 101 (CHR ''a''))) (sample_manager, sample_env)
              = (Inl TooLong, sample_manager, sample_env)"
    by blast
  from h1 h2 r1 r2 show ?thesis by blast
qed

subsection \<open>The derived view\<close>

lemma status_name_pending: "(status_name st = str ''pending'') = (st = Status_pending)"
  by (cases st) simp_all

lemma status_name_completed: "(status_name st = str ''completed'') = (st = Status_completed)"
  by (cases st) simp_all

lemma status_holds_fun:
  "status_holds Status_all = (\<lambda>t. True)"
  "status_holds Status_pending = (\<lambda>t. \<not> completed t)"
  "status_holds Status_completed = (\<lambda>t. completed t)"
  by (rule ext, simp)+

lemma applyFilters_fields [simp]:
  "currentSearch (applyFilters w m) = currentSearch m"
  "currentFilter (applyFilters w m) = currentFilter m"
  "editingTodoId (applyFilters w m) = editingTodoId m"
  unfolding applyFilters_def by (simp_all add: Let_def)

lemma applyFilters_lowercased:
  assumes "currentSearch m = trim (toLowerCase w term)" and "currentFilter m = status_name st"
  shows "filteredTodos (applyFilters w m) = lowercased_view (toLowerCase w) (todos m) term st"
proof -
  have s: "(if currentSearch m \<noteq> []
            then filter (\<lambda>t. includes_str (toLowerCase w (text t)) (currentSearch m)) (todos m)
            else todos m)
           = filter (\<lambda>t. sublist (trim (toLowerCase w term)) (toLowerCase w (text t))) (todos m)"
    by (simp add: includes_str_sublist assms(1) [symmetric])
  show ?thesis
    unfolding applyFilters_def Let_def s lowercased_view_def
    by (cases st) (simp_all add: assms(2) filter_by_status_def status_holds_fun)
qed

lemma sublist_map_iff: "(\<exists>u. sublist u xs \<and> map f u = n) = sublist n (map f xs)"
proof
  assume "\<exists>u. sublist u xs \<and> map f u = n"
  then obtain u ps ss where "xs = ps @ u @ ss" "map f u = n" unfolding sublist_def by blast
  then have "map f xs = map f ps @ n @ map f ss" by simp
  then show "sublist n (map f xs)" unfolding sublist_def by blast
next
  assume "sublist n (map f xs)"
  then obtain ps ss where "map f xs = ps @ n @ ss" unfolding sublist_def by blast
  then obtain a b c where "xs = a @ b @ c" "map f b = n"
    by (auto simp: map_eq_append_conv append_eq_map_conv)
  then show "\<exists>u. sublist u xs \<and> map f u = n" unfolding sublist_def by blast
qed

lemma set_dropWhile_subset: "set (dropWhile P xs) \<subseteq> set xs"
  by (auto dest: set_dropWhileD)

lemma set_trim: "set (trim s) \<subseteq> set s"
proof -
  have "set (trim s) = set (dropWhile isWhiteSpace (rev (dropWhile isWhiteSpace s)))"
    unfolding trim_def by simp
  also have "\<dots> \<subseteq> set (rev (dropWhile isWhiteSpace s))" by (rule set_dropWhile_subset)
  also have "\<dots> \<subseteq> set s" using set_dropWhile_subset [of isWhiteSpace s] by simp
  finally show ?thesis .
qed

lemma trim_map:
  assumes "\<forall>u \<in> set s. isWhiteSpace (f u) = isWhiteSpace u"
  shows "trim (map f s) = map f (trim s)"
proof -
  have d: "dropWhile isWhiteSpace (map f xs) = map f (dropWhile isWhiteSpace xs)"
    if "set xs \<subseteq> set s" for xs
  proof -
    have "dropWhile (isWhiteSpace \<circ> f) xs = dropWhile isWhiteSpace xs"
      using that assms by (intro dropWhile_cong) auto
    then show ?thesis by (simp add: dropWhile_map)
  qed
  have 1: "set (rev (dropWhile isWhiteSpace s)) \<subseteq> set s"
    using set_dropWhile_subset [of isWhiteSpace s] by simp
  have "trim (map f s) = rev (dropWhile isWhiteSpace (rev (map f (dropWhile isWhiteSpace s))))"
    unfolding trim_def by (simp add: d)
  also have "\<dots> = rev (dropWhile isWhiteSpace (map f (rev (dropWhile isWhiteSpace s))))"
    by (simp add: rev_map)
  also have "\<dots> = rev (map f (dropWhile isWhiteSpace (rev (dropWhile isWhiteSpace s))))"
    by (simp only: d [OF 1])
  also have "\<dots> = map f (trim s)"
    unfolding trim_def by (simp add: rev_map)
  finally show ?thesis .
qed

lemma sublist_subset: "sublist u xs \<Longrightarrow> set u \<subseteq> set xs"
  unfolding sublist_def by auto

lemma ci_substring_unitwise:
  assumes uw: "unitwise lower f A" and tm: "set term \<subseteq> A" and tx: "set txt \<subseteq> A"
  shows "ci_substring lower (normalize_spec lower term) txt = sublist (trim (lower term)) (lower txt)"
proof -
  from uw have low: "\<And>s. set s \<subseteq> A \<Longrightarrow> lower s = map f s"
    and fA: "\<And>u. u \<in> A \<Longrightarrow> f u \<in> A" and idem: "\<And>u. u \<in> A \<Longrightarrow> f (f u) = f u"
    and sp: "\<And>u. u \<in> A \<Longrightarrow> isWhiteSpace (f u) = isWhiteSpace u"
    unfolding unitwise_def by blast+
  from tm set_trim [of "term"] have tt: "set (trim term) \<subseteq> A" by blast
  have n: "normalize_spec lower term = map f (trim term)"
    unfolding normalize_spec_def by (rule low [OF tt])
  have "set (map f (trim term)) \<subseteq> A" using tt fA by auto
  then have "lower (map f (trim term)) = map f (map f (trim term))" by (rule low)
  also have "\<dots> = map f (trim term)" using tt idem by auto
  finally have ln: "lower (normalize_spec lower term) = map f (trim term)" unfolding n .
  have tl: "trim (lower term) = map f (trim term)"
    unfolding low [OF tm] using tm sp by (intro trim_map) auto
  have "ci_substring lower (normalize_spec lower term) txt
          = (\<exists>u. sublist u txt \<and> map f u = map f (trim term))"
    unfolding ci_substring_def ln
    using low sublist_subset tx by (metis subset_trans)
  also have "\<dots> = sublist (map f (trim term)) (map f txt)" by (rule sublist_map_iff)
  finally show ?thesis unfolding tl low [OF tx] .
qed

lemma lowercased_view_unitwise:
  assumes "unitwise lower f A" and "set term \<subseteq> A" and "\<forall>t \<in> set coll. set (text t) \<subseteq> A"
  shows "lowercased_view lower coll term st = visible_spec lower coll term st"
proof -
  have "filter (\<lambda>t. sublist (trim (lower term)) (lower (text t))) coll
          = filter (\<lambda>t. ci_substring lower (normalize_spec lower term) (text t)) coll"
    using assms(3) by (intro filter_cong) (simp_all add: ci_substring_unitwise [OF assms(1,2)])
  then show ?thesis
    unfolding lowercased_view_def visible_spec_def filter_by_search_def by simp
qed

subsection \<open>The sample lowercasing\<close>

lemma unat_lower_unit:
  "unat (lower_unit u) =
     (if (65 \<le> unat u \<and> unat u \<le> 90) \<or> (192 \<le> unat u \<and> unat u \<le> 222 \<and> unat u \<noteq> 215)
         \<or> (913 \<le> unat u \<and> unat u \<le> 937 \<and> unat u \<noteq> 930)
      then unat u + 32 else unat u)"
  unfolding lower_unit_def
  by (simp add: word_le_nat_alt unat_word_ariths word_unat_eq_iff)

lemma isWhiteSpace_unat:
  "isWhiteSpace u =
     (unat u \<in> {9, 10, 11, 12, 13, 32, 160, 5760, 8192, 8193, 8194, 8195, 8196, 8197, 8198,
                8199, 8200, 8201, 8202, 8232, 8233, 8239, 8287, 12288, 65279})"
  unfolding isWhiteSpace_def by (simp add: word_unat_eq_iff)

lemma lower_unit_space: "isWhiteSpace (lower_unit u) = isWhiteSpace u"
  unfolding isWhiteSpace_unat unat_lower_unit by simp

lemma lower_unit_idem: "lower_unit (lower_unit u) = lower_unit u"
  unfolding word_unat_eq_iff unat_lower_unit by simp

lemma lower_unit_le: "u \<le> 0xFF \<Longrightarrow> lower_unit u \<le> 0xFF"
  unfolding word_le_nat_alt unat_lower_unit by simp

lemma lower_from_map: "\<forall>u \<in> set s. u \<noteq> 0x3A3 \<Longrightarrow> lower_from b s = map lower_unit s"
  by (induction b s rule: lower_from.induct) simp_all

lemma latin1_no_sigma: "u \<le> 0xFF \<Longrightarrow> u \<noteq> (0x3A3 :: code_unit)"
  by (auto simp: word_le_nat_alt)

lemma unitwise_sample: "unitwise sample_toLowerCase lower_unit {u. u \<le> 0xFF}"
  unfolding unitwise_def sample_toLowerCase_def
  by (auto simp: lower_unit_le lower_unit_idem lower_unit_space intro!: lower_from_map
        dest: latin1_no_sigma)

lemma toLowerCase_samples:
  "toLowerCase sample_env (str ''  MILK '') = str ''  milk ''"
  "toLowerCase sample_env (str ''milk'') = str ''milk''"
  "toLowerCase sample_env (str ''Buy milk'') = str ''buy milk''"
  "toLowerCase sample_env (str ''Walk dog'') = str ''walk dog''"
  "toLowerCase sample_env [] = []"
  by (simp_all add: sample_env_def sample_toLowerCase_def lower_unit_def cased_def str_def)

lemma toLowerCase_greek:
  "toLowerCase sample_env kos = [0x3BA, 0x3C9, 0x3C2]"
  "toLowerCase sample_env kostas = [0x3BA, 0x3C9, 0x3C3, 0x3C4, 0x3B1, 0x3C2]"
  by (simp_all add: sample_env_def sample_toLowerCase_def lower_unit_def cased_def
        kos_def kostas_def)

lemma trim_samples:
  "trim (str ''  milk '') = str ''milk''"
  "trim (str ''milk'') = str ''milk''"
  "trim [0x3BA, 0x3C9, 0x3C2] = [0x3BA, 0x3C9, 0x3C2]"
  by (simp_all add: trim_def isWhiteSpace_def str_def)

lemma includes_samples:
  "includes_str (str ''buy milk'') (str ''milk'')"
  "\<not> includes_str (str ''walk dog'') (str ''milk'')"
  "\<not> includes_str [0x3BA, 0x3C9, 0x3C3, 0x3C4, 0x3B1, 0x3C2] [0x3BA, 0x3C9, 0x3C2]"
  by (simp_all add: str_def)

subsection \<open>Statistics\<close>

lemma getStats_setSearch: "getStats (setSearch w term m) = getStats m"
  unfolding getStats_def setSearch_def by simp

lemma getStats_setFilter: "getStats (setFilter w f m) = getStats m"
  unfolding getStats_def setFilter_def by simp

lemma getStats_view_steps: "getStats (foldl (view_step w) m ops) = getStats m"
proof (induction ops arbitrary: m)
  case Nil then show ?case by simp
next
  case (Cons a ops)
  show ?case by (cases a) (simp_all add: Cons.IH getStats_setSearch getStats_setFilter)
qed

lemma length_filter_split:
  "length xs = length (filter (\<lambda>x. \<not> P x) xs) + length (filter P xs)"
  by (induction xs) auto

text \<open>
  Claim C6. In every state of the store the statistics satisfy total = pending +
  completed; they are counted on the full collection, not on the filtered view, and no
  sequence of \<open>setSearch\<close> and \<open>setFilter\<close> calls changes them.
\<close>

theorem getStats_counts:
  "total (getStats m) = pending (getStats m) + completed_count (getStats m) \<and>
   total (getStats m) = length (todos m) \<and>
   completed_count (getStats m) = length (filter (\<lambda>t. completed t) (todos m)) \<and>
   pending (getStats m) = length (filter (\<lambda>t. \<not> completed t) (todos m)) \<and>
   getStats (m\<lparr>filteredTodos := v\<rparr>) = getStats m \<and>
   getStats (foldl (view_step w) m ops) = getStats m"
proof -
  have le: "length (filter (\<lambda>t. completed t) (todos m)) \<le> length (todos m)" by simp
  have p: "pending (getStats m) = length (filter (\<lambda>t. \<not> completed t) (todos m))"
    unfolding getStats_def Let_def
    using length_filter_split [of "todos m" "\<lambda>t. completed t"] by simp
  have a: "total (getStats m) = pending (getStats m) + completed_count (getStats m)"
    unfolding getStats_def Let_def using le by simp
  have b: "total (getStats m) = length (todos m)"
    and c: "completed_count (getStats m) = length (filter (\<lambda>t. completed t) (todos m))"
    and d: "getStats (m\<lparr>filteredTodos := v\<rparr>) = getStats m"
    unfolding getStats_def Let_def by simp_all
  from a b c p d getStats_view_steps show ?thesis by blast
qed

theorem getStats_counts_witness:
  "getStats (foldl (view_step sample_env) sample_manager
      [SetSearch (str ''milk''), SetFilter (str ''completed'')]) =
     \<lparr>total = 2, pending = 1, completed_count = 1\<rparr> \<and>
   filteredTodos (foldl (view_step sample_env) sample_manager
      [SetSearch (str ''milk''), SetFilter (str ''completed'')]) = []"
proof -
  have e: "getStats sample_manager = \<lparr>total = 2, pending = 1, completed_count = 1\<rparr>"
    by (simp add: getStats_def sample_manager_def task_milk_def task_dog_def Let_def)
  have f: "filteredTodos (foldl (view_step sample_env) sample_manager
      [SetSearch (str ''milk''), SetFilter (str ''completed'')]) = []"
    by (simp add: setFilter_def setSearch_def applyFilters_def sample_manager_def Let_def
          toLowerCase_samples trim_samples includes_samples task_milk_def task_dog_def)
  from getStats_counts [of sample_manager _ sample_env
         "[SetSearch (str ''milk''), SetFilter (str ''completed'')]"] e f
  show ?thesis by simp
qed

subsection \<open>Updating, toggling and deleting\<close>

lemma findIndex_present:
  "x \<in> set xs \<Longrightarrow> p x \<Longrightarrow> \<exists>k. findIndex p xs = Some k"
  using findIndex_None [of p xs] by (cases "findIndex p xs") auto

lemma findIndex_id_present:
  "i \<in> set (map todo_id ts) \<Longrightarrow> \<exists>k. findIndex (\<lambda>t. todo_id t = i) ts = Some k"
  by (auto intro: findIndex_present)

lemma findIndex_id_absent:
  "i \<notin> set (map todo_id ts) \<Longrightarrow> findIndex (\<lambda>t. todo_id t = i) ts = None"
  by (auto simp: findIndex_None)

lemma findIndex_update:
  "findIndex p xs = Some k \<Longrightarrow> p y \<Longrightarrow> findIndex p (xs[k := y]) = Some k"
proof (induction xs arbitrary: k)
  case Nil then show ?case by simp
next
  case (Cons x xs)
  show ?case
  proof (cases "p x")
    case True with Cons.prems show ?thesis by simp
  next
    case False
    with Cons.prems obtain k' where k': "findIndex p xs = Some k'" "k = Suc k'" by auto
    from Cons.IH [OF k'(1) Cons.prems(2)] False k'(2) show ?thesis by simp
  qed
qed

lemma find_findIndex:
  "find p xs = (case findIndex p xs of None \<Rightarrow> None | Some k \<Rightarrow> Some (xs ! k))"
  by (induction xs) (auto split: option.splits)

lemma toggleTodo_missing:
  "findIndex (\<lambda>t. todo_id t = i) (todos m) = None \<Longrightarrow> toggleTodo i (m, w) = (Inl NotFound, m, w)"
  unfolding toggleTodo_def by simp

lemma toggleTodo_found:
  "findIndex (\<lambda>t. todo_id t = i) (todos m) = Some k \<Longrightarrow>
   toggleTodo i (m, w) =
     (Inr (),
      applyFilters
        (saveTodos ((todos m)[k := (todos m ! k)\<lparr>completed := \<not> completed (todos m ! k),
                                                 updatedAt := clock w (ticks w)\<rparr>])
           (w\<lparr>ticks := Suc (ticks w)\<rparr>))
        (m\<lparr>todos := (todos m)[k := (todos m ! k)\<lparr>completed := \<not> completed (todos m ! k),
                                                 updatedAt := clock w (ticks w)\<rparr>]\<rparr>),
      saveTodos ((todos m)[k := (todos m ! k)\<lparr>completed := \<not> completed (todos m ! k),
                                               updatedAt := clock w (ticks w)\<rparr>])
        (w\<lparr>ticks := Suc (ticks w)\<rparr>))"
  unfolding toggleTodo_def toggleComplete_def Date_now_def by (simp add: Let_def)

lemma saveTodos_clock [simp]:
  "clock (saveTodos ts w) = clock w"
  "ticks (saveTodos ts w) = ticks w"
  "toLowerCase (saveTodos ts w) = toLowerCase w"
  unfolding saveTodos_def showToast_def console_error_def by (simp_all add: Let_def)

lemma updateTodo_missing:
  "findIndex (\<lambda>t. todo_id t = i) (todos m) = None \<Longrightarrow>
   updateTodo i newText (m, w) = (Inl NotFound, m, w)"
  unfolding updateTodo_def by simp

lemma updateTodo_invalid:
  "findIndex (\<lambda>t. todo_id t = i) (todos m) = Some k \<Longrightarrow> validateTodo newText = Inl e \<Longrightarrow>
   updateTodo i newText (m, w) = (Inl e, m, w)"
  unfolding updateTodo_def updateText_def by simp

lemma updateTodo_found:
  "findIndex (\<lambda>t. todo_id t = i) (todos m) = Some k \<Longrightarrow> validateTodo newText = Inr vt \<Longrightarrow>
   updateTodo i newText (m, w) =
     (Inr (),
      applyFilters
        (saveTodos ((todos m)[k := (todos m ! k)\<lparr>text := vt, updatedAt := clock w (ticks w)\<rparr>])
           (w\<lparr>ticks := Suc (ticks w)\<rparr>))
        (m\<lparr>todos := (todos m)[k := (todos m ! k)\<lparr>text := vt,
                                                 updatedAt := clock w (ticks w)\<rparr>]\<rparr>),
      saveTodos ((todos m)[k := (todos m ! k)\<lparr>text := vt, updatedAt := clock w (ticks w)\<rparr>])
        (w\<lparr>ticks := Suc (ticks w)\<rparr>))"
  unfolding updateTodo_def updateText_def Date_now_def by (simp add: Let_def)

lemma deleteTodo_missing:
  "findIndex (\<lambda>t. todo_id t = i) (todos m) = None \<Longrightarrow> deleteTodo i (m, w) = (Inl NotFound, m, w)"
  unfolding deleteTodo_def by simp

lemma deleteTodo_found:
  "findIndex (\<lambda>t. todo_id t = i) (todos m) = Some k \<Longrightarrow>
   deleteTodo i (m, w) =
     (Inr (),
      applyFilters (saveTodos (take k (todos m) @ drop (Suc k) (todos m)) w)
        (m\<lparr>todos := take k (todos m) @ drop (Suc k) (todos m)\<rparr>),
      saveTodos (take k (todos m) @ drop (Suc k) (todos m)) w)"
  unfolding deleteTodo_def by (simp add: Let_def)

lemma updateTodo_editing:
  "editingTodoId (fst (snd (updateTodo i newText (m, w)))) = editingTodoId m"
proof (cases "findIndex (\<lambda>t. todo_id t = i) (todos m)")
  case None then show ?thesis by (simp add: updateTodo_missing)
next
  case (Some k)
  then show ?thesis
    by (cases "validateTodo newText") (simp_all add: updateTodo_invalid updateTodo_found)
qed

subsection \<open>The edit handler\<close>

lemma getEditingTodo_found:
  assumes "editingTodoId m = Some i" and "i \<noteq> []"
    and "findIndex (\<lambda>t. todo_id t = i) (todos m) = Some k"
  shows "getEditingTodo m = Some (todos m ! k)" and "todo_id (todos m ! k) = i"
  using assms findIndex_Some [OF assms(3)]
  by (simp_all add: getEditingTodo_def find_findIndex)

lemma getEditingTodo_none:
  assumes "editingTodoId m = Some i" and "i = [] \<or> i \<notin> set (map todo_id (todos m))"
  shows "getEditingTodo m = None"
  using assms findIndex_id_absent [of i "todos m"]
  by (auto simp: getEditingTodo_def find_findIndex)

lemma handleEditTodo_success:
  assumes e: "editingTodoId m = Some i" and i: "i \<noteq> []"
    and p: "i \<in> set (map todo_id (todos m))"
    and v: "1 \<le> length (trim v)" "length (trim v) \<le> 100"
  shows "fst (updateTodo i (trim v) (m, w)) = Inr ()"
    and "handleEditTodo (Some v) (m, w) =
           (hideEditForm (fst (snd (updateTodo i (trim v) (m, w)))),
            showToast (str ''Tarefa atualizada com sucesso!'') (str ''success'')
              (snd (snd (updateTodo i (trim v) (m, w)))))"
proof -
  from findIndex_id_present [OF p] obtain k
    where k: "findIndex (\<lambda>t. todo_id t = i) (todos m) = Some k" by blast
  from v have val: "validateTodo (trim v) = Inr (trim v)"
    by (simp add: validateTodo_Inr trim_idem)
  from v have ne: "trim v \<noteq> []" by auto
  note g = getEditingTodo_found [OF e i k]
  show "fst (updateTodo i (trim v) (m, w)) = Inr ()"
    by (simp add: updateTodo_found [OF k val])
  show "handleEditTodo (Some v) (m, w) =
           (hideEditForm (fst (snd (updateTodo i (trim v) (m, w)))),
            showToast (str ''Tarefa atualizada com sucesso!'') (str ''success'')
              (snd (snd (updateTodo i (trim v) (m, w)))))"
    unfolding handleEditTodo_def
    by (simp add: Let_def g ne updateTodo_found [OF k val])
qed

lemma handleEditTodo_no_update:
  assumes e: "editingTodoId m = Some i"
    and n: "\<not> (i \<noteq> [] \<and> i \<in> set (map todo_id (todos m))
               \<and> 1 \<le> length (trim v) \<and> length (trim v) \<le> 100)"
  shows "fst (handleEditTodo (Some v) (m, w)) = m"
proof (cases "i = [] \<or> i \<notin> set (map todo_id (todos m))")
  case True
  from getEditingTodo_none [OF e True] show ?thesis
    unfolding handleEditTodo_def by (simp add: Let_def)
next
  case False
  then have i: "i \<noteq> []" and p: "i \<in> set (map todo_id (todos m))" by simp_all
  from findIndex_id_present [OF p] obtain k
    where k: "findIndex (\<lambda>t. todo_id t = i) (todos m) = Some k" by blast
  note g = getEditingTodo_found [OF e i k]
  show ?thesis
  proof (cases "trim v = []")
    case True
    then show ?thesis unfolding handleEditTodo_def by (simp add: Let_def g)
  next
    case ne: False
    with n i p have long: "100 < length (trim v)" by (cases "trim v") auto
    then have val: "validateTodo (trim v) = Inl TooLong"
      by (simp add: validateTodo_Inl trim_idem)
    show ?thesis
      unfolding handleEditTodo_def
      by (simp add: Let_def g ne updateTodo_invalid [OF k val])
  qed
qed

text \<open>
  Claim C7, as amended. When the editing slot holds an id and \<open>updateTodo\<close> on that
  id succeeds, the slot still holds the id: \<open>updateTodo\<close> never writes
  \<open>editingTodoId\<close>. The slot is emptied by the edit handler of the user interface:
  when the slot holds the id of a task and the trimmed input has 1 to 100 units,
  \<open>handleEditTodo\<close> makes that update and then calls \<open>stopEditing\<close> through
  \<open>hideEditForm\<close>, and the slot is empty afterwards; in every other case the handler
  leaves the store, and so the slot, as it was.
\<close>

theorem updateTodo_keeps_editing:
  assumes "editingTodoId m = Some i"
  shows "(updateTodo i newText (m, w) = (Inr (), m', w') \<longrightarrow> editingTodoId m' = Some i) \<and>
         (i \<noteq> [] \<and> i \<in> set (map todo_id (todos m)) \<and> 1 \<le> length (trim v)
            \<and> length (trim v) \<le> 100 \<longrightarrow>
            fst (updateTodo i (trim v) (m, w)) = Inr () \<and>
            editingTodoId (fst (snd (updateTodo i (trim v) (m, w)))) = Some i \<and>
            fst (handleEditTodo (Some v) (m, w))
              = stopEditing (fst (snd (updateTodo i (trim v) (m, w)))) \<and>
            editingTodoId (fst (handleEditTodo (Some v) (m, w))) = None) \<and>
         (\<not> (i \<noteq> [] \<and> i \<in> set (map todo_id (todos m)) \<and> 1 \<le> length (trim v)
              \<and> length (trim v) \<le> 100) \<longrightarrow>
            fst (handleEditTodo (Some v) (m, w)) = m \<and>
            editingTodoId (fst (handleEditTodo (Some v) (m, w))) = Some i) \<and>
         handleEditTodo None (m, w) = (m, w)"
proof -
  have a: "updateTodo i newText (m, w) = (Inr (), m', w') \<longrightarrow> editingTodoId m' = Some i"
    using updateTodo_editing [of i newText m w] assms by auto
  have b: "fst (updateTodo i (trim v) (m, w)) = Inr () \<and>
            editingTodoId (fst (snd (updateTodo i (trim v) (m, w)))) = Some i \<and>
            fst (handleEditTodo (Some v) (m, w))
              = stopEditing (fst (snd (updateTodo i (trim v) (m, w)))) \<and>
            editingTodoId (fst (handleEditTodo (Some v) (m, w))) = None"
    if "i \<noteq> [] \<and> i \<in> set (map todo_id (todos m)) \<and> 1 \<le> length (trim v)
            \<and> length (trim v) \<le> 100"
  proof -
    from that have i: "i \<noteq> []" and p: "i \<in> set (map todo_id (todos m))"
      and v: "1 \<le> length (trim v)" "length (trim v) \<le> 100" by simp_all
    note s = handleEditTodo_success [OF assms i p v, of w]
    show ?thesis
      by (simp add: s updateTodo_editing assms hideEditForm_def) (simp add: stopEditing_def)
  qed
  have c: "fst (handleEditTodo (Some v) (m, w)) = m \<and>
            editingTodoId (fst (handleEditTodo (Some v) (m, w))) = Some i"
    if "\<not> (i \<noteq> [] \<and> i \<in> set (map todo_id (todos m)) \<and> 1 \<le> length (trim v)
              \<and> length (trim v) \<le> 100)"
    using handleEditTodo_no_update [OF assms that, of w] assms by simp
  have d: "handleEditTodo None (m, w) = (m, w)" by (simp add: handleEditTodo_def)
  from a b c d show ?thesis by blast
qed

lemma task_milk_index:
  "findIndex (\<lambda>t. todo_id t = todo_id task_milk) (todos editing_manager) = Some 0"
  by (simp add: editing_manager_def startEditing_def sample_manager_def)

lemma validate_oat: "validateTodo (str ''Buy oat milk'') = Inr (str ''Buy oat milk'')"
  by (simp add: validateTodo_Inr trim_def isWhiteSpace_def str_def)

text \<open>Claim C7 as first stated fails: after a successful update of the task being
  edited, the slot is not empty.\<close>

theorem updateTodo_clears_editing_counterexample:
  "editingTodoId editing_manager = Some (todo_id task_milk) \<and>
   fst (updateTodo (todo_id task_milk) (str ''Buy oat milk'') (editing_manager, sample_env))
     = Inr () \<and>
   editingTodoId (fst (snd (updateTodo (todo_id task_milk) (str ''Buy oat milk'')
      (editing_manager, sample_env)))) \<noteq> None"
  by (simp add: updateTodo_found [OF task_milk_index validate_oat])
     (simp add: editing_manager_def startEditing_def)

theorem updateTodo_keeps_editing_witness:
  "editingTodoId editing_manager = Some (todo_id task_milk) \<and>
   todo_id task_milk \<noteq> [] \<and> todo_id task_milk \<in> set (map todo_id (todos editing_manager)) \<and>
   1 \<le> length (trim (str '' Buy oat milk '')) \<and> length (trim (str '' Buy oat milk '')) \<le> 100 \<and>
   editingTodoId (fst (snd (updateTodo (todo_id task_milk) (str ''Buy oat milk'')
      (editing_manager, sample_env)))) = Some (todo_id task_milk) \<and>
   editingTodoId (fst (handleEditTodo (Some (str '' Buy oat milk ''))
      (editing_manager, sample_env))) = None \<and>
   \<not> (1 \<le> length (trim (str ''   ''))) \<and>
   editingTodoId (fst (handleEditTodo (Some (str ''   '')) (editing_manager, sample_env)))
     = Some (todo_id task_milk)"
proof -
  have h: "editingTodoId editing_manager = Some (todo_id task_milk)"
    by (simp add: editing_manager_def startEditing_def)
  have i: "todo_id task_milk \<noteq> []" by (simp add: task_milk_def)
  have p: "todo_id task_milk \<in> set (map todo_id (todos editing_manager))"
    by (simp add: editing_manager_def startEditing_def sample_manager_def)
  have t: "trim (str '' Buy oat milk '') = str ''Buy oat milk''"
    by (simp add: trim_def isWhiteSpace_def str_def)
  have v: "1 \<le> length (trim (str '' Buy oat milk ''))"
    "length (trim (str '' Buy oat milk '')) \<le> 100"
    unfolding t by (simp_all add: str_def)
  have b: "\<not> (1 \<le> length (trim (str ''   '')))"
    by (simp add: trim_def isWhiteSpace_def str_def)
  obtain m' w' where r: "updateTodo (todo_id task_milk) (str ''Buy oat milk'')
      (editing_manager, sample_env) = (Inr (), m', w')"
    by (simp add: updateTodo_found [OF task_milk_index validate_oat])
  from updateTodo_keeps_editing [OF h, of "str ''Buy oat milk''" sample_env m' w'
         "str '' Buy oat milk ''"] r i p v
  have 1: "editingTodoId m' = Some (todo_id task_milk)"
    and 2: "editingTodoId (fst (handleEditTodo (Some (str '' Buy oat milk ''))
              (editing_manager, sample_env))) = None"
    by blast+
  from updateTodo_keeps_editing [OF h, of _ sample_env _ _ "str ''   ''"] b
  have 3: "editingTodoId (fst (handleEditTodo (Some (str ''   '')) (editing_manager, sample_env)))
             = Some (todo_id task_milk)"
    by blast
  from h i p v b r 1 2 3 show ?thesis by simp
qed

text \<open>
  Claim C10. For every id in the collection \<open>toggleTodo\<close> succeeds and changes only
  the completed flag and \<open>updatedAt\<close> of the task it targets, the first one with that
  id: the id, text and \<open>createdAt\<close> of that task, every other task, the order and the
  length of the collection, the search term and the status filter are what they were.
\<close>

theorem toggleTodo_frame:
  assumes "i \<in> set (map todo_id (todos m))"
  shows "\<exists>k m' w'. findIndex (\<lambda>t. todo_id t = i) (todos m) = Some k \<and> k < length (todos m) \<and>
           toggleTodo i (m, w) = (Inr (), m', w') \<and>
           todos m' = (todos m)[k := (todos m ! k)\<lparr>completed := \<not> completed (todos m ! k),
                                                   updatedAt := clock w (ticks w)\<rparr>] \<and>
           todo_id (todos m' ! k) = todo_id (todos m ! k) \<and>
           text (todos m' ! k) = text (todos m ! k) \<and>
           createdAt (todos m' ! k) = createdAt (todos m ! k) \<and>
           (\<forall>j. j \<noteq> k \<longrightarrow> todos m' ! j = todos m ! j) \<and>
           length (todos m') = length (todos m) \<and>
           map todo_id (todos m') = map todo_id (todos m) \<and>
           currentSearch m' = currentSearch m \<and> currentFilter m' = currentFilter m \<and>
           editingTodoId m' = editingTodoId m"
proof -
  from findIndex_id_present [OF assms] obtain k
    where k: "findIndex (\<lambda>t. todo_id t = i) (todos m) = Some k" by blast
  from findIndex_Some [OF k] have lt: "k < length (todos m)" by simp
  let ?t = "(todos m ! k)\<lparr>completed := \<not> completed (todos m ! k), updatedAt := clock w (ticks w)\<rparr>"
  have ids: "map todo_id ((todos m)[k := ?t]) = map todo_id (todos m)"
    using lt by (simp add: map_update list_update_same_conv)
  show ?thesis
    unfolding toggleTodo_found [OF k] using k lt ids by simp
qed

theorem toggleTodo_frame_witness:
  "todo_id task_dog \<in> set (map todo_id (todos sample_manager)) \<and>
   fst (toggleTodo (todo_id task_dog) (sample_manager, sample_env)) = Inr () \<and>
   todos (fst (snd (toggleTodo (todo_id task_dog) (sample_manager, sample_env)))) =
     [task_milk, task_dog\<lparr>completed := False, updatedAt := 1700000000000\<rparr>]"
proof -
  have h: "todo_id task_dog \<in> set (map todo_id (todos sample_manager))"
    by (simp add: sample_manager_def)
  have k: "findIndex (\<lambda>t. todo_id t = todo_id task_dog) (todos sample_manager) = Some (Suc 0)"
    by (simp add: sample_manager_def task_milk_def task_dog_def)
  from toggleTodo_frame [OF h, of sample_env] k h show ?thesis
    by (auto simp: sample_manager_def sample_env_def task_dog_def)
qed

text \<open>
  Claim C8, as amended. For every id in the collection, toggling it twice succeeds both
  times and gives the targeted task its original completed flag back; after each toggle
  \<open>updatedAt\<close> is the reading of the clock that the toggle took, so it has strictly
  increased whenever that reading is later than the value before.
\<close>

theorem toggleTodo_twice:
  assumes "i \<in> set (map todo_id (todos m))"
  shows "\<exists>k m1 w1 m2 w2. findIndex (\<lambda>t. todo_id t = i) (todos m) = Some k \<and>
           toggleTodo i (m, w) = (Inr (), m1, w1) \<and> toggleTodo i (m1, w1) = (Inr (), m2, w2) \<and>
           completed (todos m1 ! k) = (\<not> completed (todos m ! k)) \<and>
           completed (todos m2 ! k) = completed (todos m ! k) \<and>
           updatedAt (todos m1 ! k) = clock w (ticks w) \<and>
           updatedAt (todos m2 ! k) = clock w (Suc (ticks w)) \<and>
           (updatedAt (todos m ! k) < clock w (ticks w) \<longrightarrow>
              updatedAt (todos m ! k) < updatedAt (todos m1 ! k)) \<and>
           (clock w (ticks w) < clock w (Suc (ticks w)) \<longrightarrow>
              updatedAt (todos m1 ! k) < updatedAt (todos m2 ! k))"
proof -
  from findIndex_id_present [OF assms] obtain k
    where k: "findIndex (\<lambda>t. todo_id t = i) (todos m) = Some k" by blast
  from findIndex_Some [OF k] have lt: "k < length (todos m)" and idk: "todo_id (todos m ! k) = i"
    by simp_all
  let ?t1 = "(todos m ! k)\<lparr>completed := \<not> completed (todos m ! k), updatedAt := clock w (ticks w)\<rparr>"
  let ?w1 = "saveTodos ((todos m)[k := ?t1]) (w\<lparr>ticks := Suc (ticks w)\<rparr>)"
  let ?m1 = "applyFilters ?w1 (m\<lparr>todos := (todos m)[k := ?t1]\<rparr>)"
  have r1: "toggleTodo i (m, w) = (Inr (), ?m1, ?w1)" by (rule toggleTodo_found [OF k])
  have k1: "findIndex (\<lambda>t. todo_id t = i) (todos ?m1) = Some k"
    using findIndex_update [OF k, of ?t1] idk by simp
  have n1: "todos ?m1 ! k = ?t1" using lt by simp
  obtain m2 w2 where r2: "toggleTodo i (?m1, ?w1) = (Inr (), m2, w2)"
    and t2: "todos m2 = (todos ?m1)[k := (todos ?m1 ! k)\<lparr>completed := \<not> completed (todos ?m1 ! k),
                                                      updatedAt := clock ?w1 (ticks ?w1)\<rparr>]"
    using toggleTodo_found [OF k1, of ?w1] by simp
  have n2: "todos m2 ! k = ?t1\<lparr>completed := \<not> completed ?t1, updatedAt := clock w (Suc (ticks w))\<rparr>"
    unfolding t2 using lt by (simp add: n1)
  show ?thesis
    using k r1 r2 n1 n2 by (intro exI [of _ k] exI [of _ ?m1] exI [of _ ?w1] exI [of _ m2] exI [of _ w2]) simp
qed

lemma decimal_now: "decimal 1700000000000 = str ''1700000000000''"
  by (simp add: decimal.simps str_def)

lemma TodoManager_frozen:
  "TodoManager frozen_env =
     (\<lparr>todos = [], filteredTodos = [], currentFilter = str ''all'', currentSearch = [],
       editingTodoId = None\<rparr>, frozen_env)"
  by (simp add: TodoManager_def loadTodos_def getTodos_def frozen_env_def sample_env_def
        applyFilters_def Let_def)

lemma validate_milk: "validateTodo (str ''Buy milk'') = Inr (str ''Buy milk'')"
  by (simp add: validateTodo_Inr trim_def isWhiteSpace_def str_def)

lemma TodoItem_frozen:
  "fst (TodoItem (str ''Buy milk'') None frozen_env) = task_now"
  by (simp add: TodoItem_def id_or_generate_def generateId_def Date_now_def Math_random_def
        frozen_env_def sample_env_def Let_def decimal_now task_now_def)
     (simp add: trim_def isWhiteSpace_def str_def)

lemma clock_frozen_TodoItem: "clock (snd (TodoItem txt i frozen_env)) = (\<lambda>k. 1700000000000)"
  by (simp add: TodoItem_def id_or_generate_def generateId_def Date_now_def Math_random_def
        frozen_env_def sample_env_def Let_def split_beta split: option.split)

lemma added_todos: "todos (fst added) = [task_now]"
  unfolding added_def TodoManager_frozen addTodo_Inr [OF validate_milk]
  by (simp add: TodoItem_frozen)

lemma added_clock: "clock (snd added) = (\<lambda>k. 1700000000000)"
  unfolding added_def TodoManager_frozen addTodo_Inr [OF validate_milk]
  by (simp add: clock_frozen_TodoItem)

lemma added_index: "findIndex (\<lambda>t. todo_id t = todo_id task_now) (todos (fst added)) = Some 0"
  by (simp add: added_todos)

lemma added_once_eq:
  "toggleTodo (todo_id task_now) added = (Inr (), added_once) \<and>
   todos (fst added_once) = [task_now\<lparr>completed := True\<rparr>] \<and>
   clock (snd added_once) = (\<lambda>k. 1700000000000)"
proof -
  obtain m w where a: "added = (m, w)" by (cases added)
  have k: "findIndex (\<lambda>t. todo_id t = todo_id task_now) (todos m) = Some 0"
    using added_index unfolding a by simp
  have t: "todos m = [task_now]" and c: "clock w = (\<lambda>k. 1700000000000)"
    using added_todos added_clock unfolding a by simp_all
  show ?thesis
    unfolding added_once_def a toggleTodo_found [OF k]
    by (simp add: t c task_now_def)
qed

lemma added_twice_eq:
  "toggleTodo (todo_id task_now) added_once = (Inr (), added_twice) \<and>
   todos (fst added_twice) = [task_now]"
proof -
  obtain m w where a: "added_once = (m, w)" by (cases added_once)
  have t: "todos m = [task_now\<lparr>completed := True\<rparr>]"
    and c: "clock w = (\<lambda>k. 1700000000000)"
    using added_once_eq unfolding a by simp_all
  have k: "findIndex (\<lambda>t. todo_id t = todo_id task_now) (todos m) = Some 0"
    by (simp add: t)
  show ?thesis
    unfolding added_twice_def a toggleTodo_found [OF k]
    by (simp add: t c task_now_def)
qed

text \<open>
  Claim C8 as first stated fails: a task added and toggled twice within one
  millisecond keeps the \<open>updatedAt\<close> it was made with.
\<close>

theorem toggleTodo_same_millisecond_counterexample:
  "todos (fst added) = [task_now] \<and>
   fst (toggleTodo (todo_id task_now) added) = Inr () \<and>
   fst (toggleTodo (todo_id task_now) added_once) = Inr () \<and>
   \<not> updatedAt (todos (fst added) ! 0) < updatedAt (todos (fst added_once) ! 0) \<and>
   \<not> updatedAt (todos (fst added_once) ! 0) < updatedAt (todos (fst added_twice) ! 0)"
  using added_once_eq added_twice_eq by (simp add: added_todos)

theorem toggleTodo_twice_witness:
  "todo_id task_dog \<in> set (map todo_id (todos sample_manager)) \<and>
   completed (todos (fst (snd (toggleTodo (todo_id task_dog)
      (snd (toggleTodo (todo_id task_dog) (sample_manager, sample_env)))))) ! 1) = completed task_dog \<and>
   updatedAt (todos (fst (snd (toggleTodo (todo_id task_dog) (sample_manager, sample_env)))) ! 1)
     = 1700000000000 \<and>
   updatedAt (todos (fst (snd (toggleTodo (todo_id task_dog)
      (snd (toggleTodo (todo_id task_dog) (sample_manager, sample_env)))))) ! 1) = 1700000000001 \<and>
   updatedAt task_dog < 1700000000000"
proof -
  have h: "todo_id task_dog \<in> set (map todo_id (todos sample_manager))"
    by (simp add: sample_manager_def)
  have k: "findIndex (\<lambda>t. todo_id t = todo_id task_dog) (todos sample_manager) = Some (Suc 0)"
    by (simp add: sample_manager_def task_milk_def task_dog_def)
  have n: "todos sample_manager ! 1 = task_dog" by (simp add: sample_manager_def)
  have c: "clock sample_env (ticks sample_env) = 1700000000000"
    "clock sample_env (Suc (ticks sample_env)) = 1700000000001"
    by (simp_all add: sample_env_def)
  have u: "updatedAt task_dog < 1700000000000" by (simp add: task_dog_def)
  from toggleTodo_twice [OF h, of sample_env] k n c u h show ?thesis
    by auto
qed

lemma subseq_remove_nth: "subseq (take k xs @ drop (Suc k) xs) xs"
proof (cases "k < length xs")
  case True
  have "subseq (take k xs @ drop (Suc k) xs) (take k xs @ xs ! k # drop (Suc k) xs)"
    by (simp add: subseq_append' list_emb_Cons)
  with id_take_nth_drop [OF True] show ?thesis by simp
next
  case False then show ?thesis by simp
qed

lemma distinct_remove_nth:
  assumes "distinct (map f xs)" and "k < length xs"
  shows "f (xs ! k) \<notin> set (map f (take k xs @ drop (Suc k) xs))"
proof -
  have "map f xs = map f (take k xs) @ f (xs ! k) # map f (drop (Suc k) xs)"
    using id_take_nth_drop [OF assms(2)] by (metis list.simps(9) map_append)
  with assms(1) have "distinct (map f (take k xs) @ f (xs ! k) # map f (drop (Suc k) xs))"
    by simp
  then show ?thesis by auto
qed

text \<open>
  Claim C9, as amended. For an id that is not in the collection, \<open>updateTodo\<close>,
  \<open>toggleTodo\<close> and \<open>deleteTodo\<close> fail with \<open>NotFound\<close> and return the store and
  the environment (the collection, the view state and the stored value) as they were.
  For an id that is in the collection \<open>deleteTodo\<close> succeeds; a successful
  \<open>deleteTodo\<close> removes exactly the first task with that id and keeps the others in
  their order, and it leaves the search term, the status filter and the editing slot as
  they were. When the ids of the collection are pairwise distinct, deleting the same id
  again fails with \<open>NotFound\<close>.
\<close>

theorem missing_id_NotFound:
  "(i \<notin> set (map todo_id (todos m)) \<longrightarrow>
      updateTodo i newText (m, w) = (Inl NotFound, m, w) \<and>
      toggleTodo i (m, w) = (Inl NotFound, m, w) \<and>
      deleteTodo i (m, w) = (Inl NotFound, m, w)) \<and>
   (i \<in> set (map todo_id (todos m)) \<longrightarrow> fst (deleteTodo i (m, w)) = Inr ()) \<and>
   (deleteTodo i (m, w) = (Inr (), m1, w1) \<longrightarrow>
      (\<exists>k. findIndex (\<lambda>t. todo_id t = i) (todos m) = Some k \<and> k < length (todos m) \<and>
           todo_id (todos m ! k) = i \<and> (\<forall>j < k. todo_id (todos m ! j) \<noteq> i) \<and>
           todos m1 = take k (todos m) @ drop (Suc k) (todos m)) \<and>
      subseq (todos m1) (todos m) \<and> Suc (length (todos m1)) = length (todos m) \<and>
      currentSearch m1 = currentSearch m \<and> currentFilter m1 = currentFilter m \<and>
      editingTodoId m1 = editingTodoId m \<and>
      (distinct (map todo_id (todos m)) \<longrightarrow> deleteTodo i (m1, w1) = (Inl NotFound, m1, w1)))"
proof -
  have a: "i \<notin> set (map todo_id (todos m)) \<longrightarrow>
      updateTodo i newText (m, w) = (Inl NotFound, m, w) \<and>
      toggleTodo i (m, w) = (Inl NotFound, m, w) \<and>
      deleteTodo i (m, w) = (Inl NotFound, m, w)"
    using findIndex_id_absent [of i "todos m"]
    by (simp add: updateTodo_missing toggleTodo_missing deleteTodo_missing)
  have p: "i \<in> set (map todo_id (todos m)) \<longrightarrow> fst (deleteTodo i (m, w)) = Inr ()"
    using findIndex_id_present [of i "todos m"] by (auto simp: deleteTodo_found)
  have b: "(\<exists>k. findIndex (\<lambda>t. todo_id t = i) (todos m) = Some k \<and> k < length (todos m) \<and>
           todo_id (todos m ! k) = i \<and> (\<forall>j < k. todo_id (todos m ! j) \<noteq> i) \<and>
           todos m1 = take k (todos m) @ drop (Suc k) (todos m)) \<and>
      subseq (todos m1) (todos m) \<and> Suc (length (todos m1)) = length (todos m) \<and>
      currentSearch m1 = currentSearch m \<and> currentFilter m1 = currentFilter m \<and>
      editingTodoId m1 = editingTodoId m \<and>
      (distinct (map todo_id (todos m)) \<longrightarrow> deleteTodo i (m1, w1) = (Inl NotFound, m1, w1))"
    if d: "deleteTodo i (m, w) = (Inr (), m1, w1)"
  proof (cases "findIndex (\<lambda>t. todo_id t = i) (todos m)")
    case None
    with d show ?thesis by (simp add: deleteTodo_missing)
  next
    case (Some k)
    from findIndex_Some [OF Some] have lt: "k < length (todos m)"
      and idk: "todo_id (todos m ! k) = i" and first: "\<forall>j < k. todo_id (todos m ! j) \<noteq> i"
      by simp_all
    from d have m1: "m1 = applyFilters w1 (m\<lparr>todos := take k (todos m) @ drop (Suc k) (todos m)\<rparr>)"
      unfolding deleteTodo_found [OF Some] by auto
    then have t1: "todos m1 = take k (todos m) @ drop (Suc k) (todos m)" by simp
    have f: "currentSearch m1 = currentSearch m \<and> currentFilter m1 = currentFilter m \<and>
      editingTodoId m1 = editingTodoId m" unfolding m1 by simp
    have s: "subseq (todos m1) (todos m)" unfolding t1 by (rule subseq_remove_nth)
    have l: "Suc (length (todos m1)) = length (todos m)" unfolding t1 using lt by simp
    have n: "deleteTodo i (m1, w1) = (Inl NotFound, m1, w1)" if "distinct (map todo_id (todos m))"
    proof -
      from distinct_remove_nth [OF that lt] idk have "i \<notin> set (map todo_id (todos m1))"
        unfolding t1 by simp
      then show ?thesis by (simp add: deleteTodo_missing findIndex_id_absent)
    qed
    from Some lt idk first t1 f s l n show ?thesis by blast
  qed
  from a p b show ?thesis by blast
qed

lemma twin_blob_nonempty: "twin_blob \<noteq> []"
  by (simp add: twin_blob_def quoted_def)

lemma twin_ids: "map todo_id (todos (fst twin_store)) = [str ''a'', str ''a'']"
  by (simp add: twin_store_def TodoManager_def loadTodos_def getTodos_def twin_env_def
        sample_env_def twin_blob_nonempty twin_items_def fromJSON_item_def fromJSON_def
        TodoItem_def id_or_generate_def or_now_def Date_now_def Let_def)

lemma deleteTodo_head:
  "map todo_id (todos m) = i # rest \<Longrightarrow>
   fst (deleteTodo i (m, w)) = Inr () \<and> map todo_id (todos (fst (snd (deleteTodo i (m, w))))) = rest"
proof -
  assume a: "map todo_id (todos m) = i # rest"
  then obtain t ts where t: "todos m = t # ts" "todo_id t = i" "map todo_id ts = rest" by auto
  then have k: "findIndex (\<lambda>t. todo_id t = i) (todos m) = Some 0" by simp
  show ?thesis unfolding deleteTodo_found [OF k] by (simp add: t)
qed

text \<open>
  Claim C9 as first stated fails: a collection loaded from a stored array in which two
  tasks have the same id accepts two deletions of that id.
\<close>

theorem deleteTodo_twice_counterexample:
  "map todo_id (todos (fst twin_store)) = [str ''a'', str ''a''] \<and>
   fst (deleteTodo (str ''a'') twin_store) = Inr () \<and>
   fst (deleteTodo (str ''a'') twin_once) = Inr () \<and>
   fst (deleteTodo (str ''a'') twin_once) \<noteq> Inl NotFound"
proof -
  from deleteTodo_head [OF twin_ids, of "snd twin_store"]
  have 1: "fst (deleteTodo (str ''a'') twin_store) = Inr ()"
    and 2: "map todo_id (todos (fst twin_once)) = [str ''a'']"
    unfolding twin_once_def by simp_all
  from deleteTodo_head [OF 2, of "snd twin_once"]
  have 3: "fst (deleteTodo (str ''a'') twin_once) = Inr ()" by simp
  from twin_ids 1 3 show ?thesis by simp
qed

theorem missing_id_NotFound_witness:
  "str ''todo_0_none'' \<notin> set (map todo_id (todos sample_manager)) \<and>
   updateTodo (str ''todo_0_none'') (str ''Buy oat milk'') (sample_manager, sample_env)
     = (Inl NotFound, sample_manager, sample_env) \<and>
   toggleTodo (str ''todo_0_none'') (sample_manager, sample_env)
     = (Inl NotFound, sample_manager, sample_env) \<and>
   deleteTodo (str ''todo_0_none'') (sample_manager, sample_env)
     = (Inl NotFound, sample_manager, sample_env) \<and>
   todo_id task_milk \<in> set (map todo_id (todos sample_manager)) \<and>
   distinct (map todo_id (todos sample_manager)) \<and>
   fst (deleteTodo (todo_id task_milk) (sample_manager, sample_env)) = Inr () \<and>
   todos (fst (snd (deleteTodo (todo_id task_milk) (sample_manager, sample_env)))) = [task_dog] \<and>
   fst (deleteTodo (todo_id task_milk)
          (snd (deleteTodo (todo_id task_milk) (sample_manager, sample_env)))) = Inl NotFound"
proof -
  have h1: "str ''todo_0_none'' \<notin> set (map todo_id (todos sample_manager))"
    by (simp add: sample_manager_def task_milk_def task_dog_def)
  have h2: "distinct (map todo_id (todos sample_manager))"
    by (simp add: sample_manager_def task_milk_def task_dog_def)
  have h3: "todo_id task_milk \<in> set (map todo_id (todos sample_manager))"
    by (simp add: sample_manager_def)
  have k: "findIndex (\<lambda>t. todo_id t = todo_id task_milk) (todos sample_manager) = Some 0"
    by (simp add: sample_manager_def)
  from missing_id_NotFound [of "todo_id task_milk" sample_manager _ sample_env] h3
  have ok: "fst (deleteTodo (todo_id task_milk) (sample_manager, sample_env)) = Inr ()"
    by blast
  then obtain m1 w1
    where d: "deleteTodo (todo_id task_milk) (sample_manager, sample_env) = (Inr (), m1, w1)"
    by (cases "deleteTodo (todo_id task_milk) (sample_manager, sample_env)") auto
  from missing_id_NotFound [of "str ''todo_0_none''" sample_manager "str ''Buy oat milk''"
         sample_env] h1
  have a: "updateTodo (str ''todo_0_none'') (str ''Buy oat milk'') (sample_manager, sample_env)
             = (Inl NotFound, sample_manager, sample_env) \<and>
           toggleTodo (str ''todo_0_none'') (sample_manager, sample_env)
             = (Inl NotFound, sample_manager, sample_env) \<and>
           deleteTodo (str ''todo_0_none'') (sample_manager, sample_env)
             = (Inl NotFound, sample_manager, sample_env)"
    by blast
  from missing_id_NotFound [of "todo_id task_milk" sample_manager _ sample_env m1 w1] d h2
  have b: "deleteTodo (todo_id task_milk) (m1, w1) = (Inl NotFound, m1, w1)"
    and c: "\<exists>k. findIndex (\<lambda>t. todo_id t = todo_id task_milk) (todos sample_manager) = Some k \<and>
              todos m1 = take k (todos sample_manager) @ drop (Suc k) (todos sample_manager)"
    by blast+
  from c k have t1: "todos m1 = [task_dog]" by (auto simp: sample_manager_def)
  from h1 h2 h3 a b d t1 show ?thesis by simp
qed

subsection \<open>Well-formed tasks\<close>

lemma generateId_nonempty: "fst (generateId w) \<noteq> []"
  unfolding generateId_def by (simp add: split_beta Let_def str_def)

lemma id_or_generate_nonempty: "fst (id_or_generate i w) \<noteq> []"
  unfolding id_or_generate_def by (simp add: generateId_nonempty split: option.split)

lemma TodoItem_well_formed: "well_formed (fst (TodoItem txt i w))"
  unfolding well_formed_def TodoItem_def
  by (simp add: split_beta Let_def id_or_generate_nonempty trim_idem)

lemma fromJSON_well_formed: "fromJSON d w = (Inr t, w') \<Longrightarrow> well_formed t"
  using TodoItem_well_formed [of _ "j_id d" w]
  unfolding fromJSON_def well_formed_def
  by (auto simp: split_beta Let_def split: option.splits)

lemma toggleComplete_well_formed: "well_formed t \<Longrightarrow> well_formed (fst (toggleComplete t w))"
  unfolding well_formed_def toggleComplete_def by (simp add: split_beta Let_def)

lemma updateText_well_formed:
  "well_formed t \<Longrightarrow> updateText newText t w = (Inr t', w') \<Longrightarrow> well_formed t'"
  unfolding well_formed_def updateText_def
  by (auto simp: split_beta Let_def validateTodo_Inr trim_idem split: sum.splits)

lemma map_fromJSON_well_formed:
  "map_fromJSON its w = (Inr ts, w') \<Longrightarrow> list_all well_formed ts"
proof (induction its arbitrary: w ts w')
  case Nil then show ?case by simp
next
  case (Cons it its)
  obtain r w1 where p: "fromJSON_item it w = (r, w1)" by (cases "fromJSON_item it w")
  show ?case
  proof (cases r)
    case (Inl e) with p Cons.prems show ?thesis by simp
  next
    case (Inr t)
    with p have wt: "well_formed t"
      unfolding fromJSON_item_def by (cases it) (auto dest: fromJSON_well_formed)
    obtain r2 w2 where p2: "map_fromJSON its w1 = (r2, w2)" by (cases "map_fromJSON its w1")
    show ?thesis
    proof (cases r2)
      case (Inl e) with p Inr p2 Cons.prems show ?thesis by simp
    next
      case r2: (Inr ts2)
      with Cons.IH [of w1 ts2 w2] p2 have "list_all well_formed ts2" by simp
      with p Inr p2 r2 Cons.prems wt show ?thesis by auto
    qed
  qed
qed

lemma getTodos_well_formed: "list_all well_formed (fst (getTodos w))"
proof -
  have c: "fst (getTodos_catch w1) = []" for w1 by (simp add: getTodos_catch_def)
  show ?thesis
    unfolding getTodos_def
    by (auto simp: c split: option.split parsed.split sum.split prod.split
          dest: map_fromJSON_well_formed)
qed

lemma list_all_update: "list_all P xs \<Longrightarrow> P y \<Longrightarrow> list_all P (xs[k := y])"
  unfolding list_all_iff using set_update_subset_insert [of xs k y] by auto

lemma list_all_remove_nth: "list_all P xs \<Longrightarrow> list_all P (take k xs @ drop (Suc k) xs)"
  unfolding list_all_iff by (auto dest: in_set_takeD in_set_dropD)

lemma list_all_nth: "list_all P xs \<Longrightarrow> k < length xs \<Longrightarrow> P (xs ! k)"
  unfolding list_all_iff by simp

lemma mutate_well_formed:
  assumes "list_all well_formed (todos m)"
  shows "list_all well_formed (todos (fst (snd (mutate mu (m, w)))))"
proof (cases mu)
  case (Add tx)
  show ?thesis
  proof (cases "validateTodo tx")
    case (Inl e)
    with Add assms show ?thesis by (simp add: addTodo_Inl)
  next
    case (Inr vt)
    with Add assms show ?thesis by (simp add: addTodo_Inr TodoItem_well_formed)
  qed
next
  case (Update i tx)
  show ?thesis
  proof (cases "findIndex (\<lambda>t. todo_id t = i) (todos m)")
    case None
    with Update assms show ?thesis by (simp add: updateTodo_missing)
  next
    case (Some k)
    from findIndex_Some [OF Some] have lt: "k < length (todos m)" by simp
    show ?thesis
    proof (cases "validateTodo tx")
      case (Inl e)
      with Update Some assms show ?thesis by (simp add: updateTodo_invalid)
    next
      case (Inr vt)
      then have v: "trim vt = vt" by (simp add: validateTodo_Inr trim_idem)
      from list_all_nth [OF assms lt] v
      have "well_formed ((todos m ! k)\<lparr>text := vt, updatedAt := clock w (ticks w)\<rparr>)"
        by (simp add: well_formed_def)
      with Update Some Inr assms show ?thesis
        by (simp add: updateTodo_found list_all_update)
    qed
  qed
next
  case (Toggle i)
  show ?thesis
  proof (cases "findIndex (\<lambda>t. todo_id t = i) (todos m)")
    case None
    with Toggle assms show ?thesis by (simp add: toggleTodo_missing)
  next
    case (Some k)
    from findIndex_Some [OF Some] have lt: "k < length (todos m)" by simp
    from list_all_nth [OF assms lt]
    have "well_formed ((todos m ! k)\<lparr>completed := \<not> completed (todos m ! k),
                                     updatedAt := clock w (ticks w)\<rparr>)"
      by (simp add: well_formed_def)
    with Toggle Some assms show ?thesis
      by (simp add: toggleTodo_found list_all_update)
  qed
next
  case (Delete i)
  show ?thesis
  proof (cases "findIndex (\<lambda>t. todo_id t = i) (todos m)")
    case None
    with Delete assms show ?thesis by (simp add: deleteTodo_missing)
  next
    case (Some k)
    with Delete list_all_remove_nth [OF assms, of k] show ?thesis
      by (simp add: deleteTodo_found)
  qed
qed

lemma TodoManager_well_formed: "list_all well_formed (todos (fst (TodoManager w)))"
  unfolding TodoManager_def loadTodos_def
  using getTodos_well_formed [of w] by (simp add: split_beta)

lemma run_well_formed:
  "list_all well_formed (todos (fst s)) \<Longrightarrow> list_all well_formed (todos (fst (run mus s)))"
  unfolding run_def
proof (induction mus arbitrary: s)
  case Nil then show ?case by simp
next
  case (Cons mu mus)
  obtain m w where s: "s = (m, w)" by (cases s)
  from Cons.prems have "list_all well_formed (todos (fst (snd (mutate mu (m, w)))))"
    unfolding s by (simp add: mutate_well_formed)
  from Cons.IH [OF this] show ?case unfolding s by simp
qed

lemma reachable_well_formed: "list_all well_formed (todos (fst (run mus (TodoManager w))))"
  by (rule run_well_formed) (rule TodoManager_well_formed)

subsection \<open>The round trip through the stored form\<close>

lemma id_or_generate_given: "i \<noteq> [] \<Longrightarrow> id_or_generate (Some i) w = (i, w)"
  unfolding id_or_generate_def by simp

lemma fromJSON_toJSON:
  assumes "well_formed t"
  shows "fromJSON (toJSON t) w = (Inr t, w\<lparr>ticks := Suc (Suc (ticks w))\<rparr>)"
proof -
  from assms have i: "todo_id t \<noteq> []" and x: "trim (text t) = text t"
    unfolding well_formed_def by simp_all
  show ?thesis
    unfolding fromJSON_def toJSON_def TodoItem_def or_now_def Date_now_def
    by (simp add: id_or_generate_given [OF i] x Let_def)
qed

lemma map_fromJSON_toJSON:
  "list_all well_formed C \<Longrightarrow>
   map_fromJSON (map (\<lambda>t. Obj (toJSON t)) C) w = (Inr C, w\<lparr>ticks := ticks w + 2 * length C\<rparr>)"
proof (induction C arbitrary: w)
  case Nil
  then show ?case by simp
next
  case (Cons t C)
  from Cons.prems have t: "well_formed t" and C: "list_all well_formed C" by simp_all
  show ?case
    by (simp add: fromJSON_item_def fromJSON_toJSON [OF t] Cons.IH [OF C])
qed

text \<open>
  Claim C5. For every collection of well-formed tasks (a non-empty id and a trimmed
  text), decoding with \<open>fromJSON\<close> what \<open>toJSON\<close> wrote gives the same tasks, field
  for field and in the same order. Every collection that the program holds is of that
  kind: the one a new manager loads, and the one after any sequence of mutations.
\<close>

theorem toJSON_fromJSON_roundtrip:
  "(list_all well_formed C \<longrightarrow> fst (map_fromJSON (map (\<lambda>t. Obj (toJSON t)) C) w) = Inr C) \<and>
   fst (map_fromJSON (map (\<lambda>t. Obj (toJSON t)) (todos (fst (run mus (TodoManager w0))))) w)
     = Inr (todos (fst (run mus (TodoManager w0))))"
proof -
  have a: "fst (map_fromJSON (map (\<lambda>t. Obj (toJSON t)) C) w) = Inr C" if "list_all well_formed C"
    by (simp add: map_fromJSON_toJSON [OF that])
  have b: "list_all well_formed (todos (fst (run mus (TodoManager w0))))"
    by (rule reachable_well_formed)
  have c: "fst (map_fromJSON (map (\<lambda>t. Obj (toJSON t)) (todos (fst (run mus (TodoManager w0))))) w)
             = Inr (todos (fst (run mus (TodoManager w0))))"
    by (simp add: map_fromJSON_toJSON [OF b])
  from a c show ?thesis by blast
qed

lemma sample_well_formed: "well_formed task_milk" "well_formed task_dog"
  by (simp_all add: well_formed_def task_milk_def task_dog_def)
     (simp_all add: trim_def isWhiteSpace_def str_def)

theorem toJSON_fromJSON_roundtrip_witness:
  "list_all well_formed [task_milk, task_dog] \<and>
   fst (map_fromJSON [Obj (toJSON task_milk), Obj (toJSON task_dog)] sample_env)
     = Inr [task_milk, task_dog]"
proof -
  have h: "list_all well_formed [task_milk, task_dog]" by (simp add: sample_well_formed)
  from toJSON_fromJSON_roundtrip [of "[task_milk, task_dog]" sample_env] h show ?thesis by simp
qed

lemma storage_roundtrip:
  assumes "list_all well_formed C"
    and "JSON_parse w (JSON_stringify w (map toJSON C)) = Some (JArray (map Obj (map toJSON C)))"
    and "JSON_stringify w (map toJSON C) \<noteq> []"
    and "setItem_ok w (JSON_stringify w (map toJSON C))"
  shows "fst (getTodos (saveTodos C w)) = C"
proof -
  let ?w = "w\<lparr>storage := Some (JSON_stringify w (map toJSON C))\<rparr>"
  have s: "saveTodos C w = ?w"
    unfolding saveTodos_def using assms(4) by (simp add: Let_def)
  show ?thesis
    unfolding s getTodos_def using assms(2,3)
    by (simp add: comp_def map_fromJSON_toJSON [OF assms(1)])
qed

subsection \<open>Loading\<close>

lemma console_id_or_generate: "console (snd (id_or_generate i w)) = console w"
  unfolding id_or_generate_def generateId_def Date_now_def Math_random_def
  by (simp add: Let_def split: option.split)

lemma console_or_now: "console (snd (or_now t w)) = console w"
  unfolding or_now_def Date_now_def by (simp split: option.split)

lemma console_TodoItem: "console (snd (TodoItem txt i w)) = console w"
  unfolding TodoItem_def Date_now_def
  by (simp add: split_beta Let_def console_id_or_generate)

lemma console_fromJSON: "console (snd (fromJSON d w)) = console w"
  unfolding fromJSON_def
  by (simp add: split_beta Let_def console_id_or_generate console_or_now console_TodoItem
      split: option.split)

lemma console_fromJSON_item: "console (snd (fromJSON_item it w)) = console w"
  unfolding fromJSON_item_def by (simp add: console_fromJSON split: item.split)

lemma console_map_fromJSON: "console (snd (map_fromJSON its w)) = console w"
proof (induction its arbitrary: w)
  case Nil then show ?case by simp
next
  case (Cons it its)
  show ?case
  proof (cases "fromJSON_item it w")
    case (Pair r w1)
    with console_fromJSON_item [of it w] have c1: "console w1 = console w" by simp
    show ?thesis
    proof (cases r)
      case (Inl e) with Pair c1 show ?thesis by simp
    next
      case (Inr t)
      obtain r2 w2 where p2: "map_fromJSON its w1 = (r2, w2)" by (cases "map_fromJSON its w1")
      with Cons.IH [of w1] c1 have "console w2 = console w" by simp
      with Pair Inr p2 show ?thesis by (cases r2) simp_all
    qed
  qed
qed

lemma fromJSON_item_fails:
  "(\<exists>e. fst (fromJSON_item it w) = Inl e) = (\<not> decodable_item it)"
  unfolding fromJSON_item_def fromJSON_def no_properties_def
  by (cases it) (auto simp: split_beta Let_def split: option.splits)

lemma map_fromJSON_fails:
  "(\<exists>e. fst (map_fromJSON its w) = Inl e) = (\<not> list_all decodable_item its)"
proof (induction its arbitrary: w)
  case Nil then show ?case by simp
next
  case (Cons it its)
  obtain r w1 where p: "fromJSON_item it w = (r, w1)" by (cases "fromJSON_item it w")
  show ?case
  proof (cases r)
    case (Inl e)
    with p fromJSON_item_fails [of it w] show ?thesis by auto
  next
    case (Inr t)
    with p fromJSON_item_fails [of it w] have d: "decodable_item it" by auto
    obtain r2 w2 where p2: "map_fromJSON its w1 = (r2, w2)" by (cases "map_fromJSON its w1")
    with Cons.IH [of w1] have "(\<exists>e. r2 = Inl e) = (\<not> list_all decodable_item its)" by simp
    with p Inr p2 d show ?thesis by (cases r2) auto
  qed
qed

lemma getTodos_unparseable:
  assumes "storage w = Some data" and "data \<noteq> []" and "unparseable w data"
  shows "\<exists>w1. getTodos w = getTodos_catch w1 \<and> console w1 = console w"
proof (cases "JSON_parse w data")
  case None
  with assms show ?thesis unfolding getTodos_def by auto
next
  case (Some p)
  show ?thesis
  proof (cases p)
    case NotArray
    with Some assms show ?thesis unfolding getTodos_def by auto
  next
    case (JArray its)
    with Some assms(3) have "\<not> list_all decodable_item its" unfolding unparseable_def by simp
    with map_fromJSON_fails [of its w] obtain e where e: "fst (map_fromJSON its w) = Inl e" by blast
    then obtain w1 where w1: "map_fromJSON its w = (Inl e, w1)" by (cases "map_fromJSON its w") auto
    with console_map_fromJSON [of its w] have "console w1 = console w" by simp
    with w1 Some JArray assms(1,2) show ?thesis unfolding getTodos_def by auto
  qed
qed

text \<open>
  Claim C4, as amended. \<open>getTodos\<close> returns the empty list, and prints nothing, when
  no value is stored or the stored value is the empty string. When the stored value is a
  non-empty text that does not decode (\<^verbatim>\<open>JSON.parse\<close> throws, or the value is not an
  array of objects with a string text), it returns the empty list as well, after one
  \<^verbatim>\<open>console.error\<close> and exactly one toast. In no case does it throw: its result
  is always a list.
\<close>

theorem getTodos_empty_or_corrupt:
  "(storage w = None \<or> storage w = Some [] \<longrightarrow> getTodos w = ([], w)) \<and>
   (storage w = Some data \<and> data \<noteq> [] \<and> unparseable w data \<longrightarrow>
      fst (getTodos w) = [] \<and>
      console (snd (getTodos w)) =
        console w @ [Console_error (str ''Error loading todos from storage:''),
                     Toast (str ''Erro ao carregar as tarefas. Iniciando com lista vazia.'')
                       (str ''error'')] \<and>
      warnings (snd (getTodos w)) = Suc (warnings w))"
proof -
  have a: "storage w = None \<or> storage w = Some [] \<longrightarrow> getTodos w = ([], w)"
    unfolding getTodos_def by auto
  have b: "fst (getTodos w) = [] \<and>
      console (snd (getTodos w)) =
        console w @ [Console_error (str ''Error loading todos from storage:''),
                     Toast (str ''Erro ao carregar as tarefas. Iniciando com lista vazia.'')
                       (str ''error'')] \<and>
      warnings (snd (getTodos w)) = Suc (warnings w)"
    if "storage w = Some data \<and> data \<noteq> [] \<and> unparseable w data"
  proof -
    from that getTodos_unparseable [of w data] obtain w1
      where g: "getTodos w = getTodos_catch w1" and c: "console w1 = console w" by blast
    show ?thesis
      unfolding g getTodos_catch_def showToast_def console_error_def warnings_def
      by (simp add: c)
  qed
  from a b show ?thesis by blast
qed

text \<open>Claim C4 as first stated fails: a stored empty string is present and does not
  parse, and \<open>getTodos\<close> prints nothing.\<close>

theorem getTodos_empty_string_counterexample:
  "storage blank_env = Some [] \<and> unparseable blank_env [] \<and>
   getTodos blank_env = ([], blank_env) \<and>
   console (snd (getTodos blank_env)) = [] \<and>
   warnings (snd (getTodos blank_env)) \<noteq> Suc (warnings blank_env)"
  by (simp add: blank_env_def sample_env_def unparseable_def getTodos_def warnings_def)

theorem getTodos_empty_or_corrupt_witness:
  "storage sample_env = None \<and> getTodos sample_env = ([], sample_env) \<and>
   storage corrupt_env = Some (str ''{not json'') \<and> str ''{not json'' \<noteq> [] \<and>
   unparseable corrupt_env (str ''{not json'') \<and>
   fst (getTodos corrupt_env) = [] \<and>
   console (snd (getTodos corrupt_env)) =
     [Console_error (str ''Error loading todos from storage:''),
      Toast (str ''Erro ao carregar as tarefas. Iniciando com lista vazia.'') (str ''error'')] \<and>
   warnings (snd (getTodos corrupt_env)) = 1"
proof -
  have h1: "storage sample_env = None" by (simp add: sample_env_def)
  have h2: "storage corrupt_env = Some (str ''{not json'') \<and> str ''{not json'' \<noteq> [] \<and>
            unparseable corrupt_env (str ''{not json'')"
    by (simp add: corrupt_env_def sample_env_def unparseable_def)
  have c: "console corrupt_env = []" "warnings corrupt_env = 0"
    by (simp_all add: corrupt_env_def sample_env_def warnings_def)
  from getTodos_empty_or_corrupt [of sample_env] h1
  have a: "getTodos sample_env = ([], sample_env)" by blast
  from getTodos_empty_or_corrupt [of corrupt_env "str ''{not json''"] h2
  have b: "fst (getTodos corrupt_env) = [] \<and>
      console (snd (getTodos corrupt_env)) =
        console corrupt_env @ [Console_error (str ''Error loading todos from storage:''),
                     Toast (str ''Erro ao carregar as tarefas. Iniciando com lista vazia.'')
                       (str ''error'')] \<and>
      warnings (snd (getTodos corrupt_env)) = Suc (warnings corrupt_env)"
    by blast
  from h1 h2 a b c show ?thesis by simp
qed

subsection \<open>The view after an operation\<close>

lemma toLowerCase_TodoItem: "toLowerCase (snd (TodoItem txt i w)) = toLowerCase w"
  unfolding TodoItem_def id_or_generate_def generateId_def Date_now_def Math_random_def
  by (simp add: split_beta Let_def split: option.split)

lemma mutate_result:
  "mutate mu (m, w) = (Inr (), m', w') \<Longrightarrow>
   \<exists>ts. m' = applyFilters w' (m\<lparr>todos := ts\<rparr>) \<and> toLowerCase w' = toLowerCase w"
proof (cases mu)
  case (Add tx)
  assume r: "mutate mu (m, w) = (Inr (), m', w')"
  show ?thesis
  proof (cases "validateTodo tx")
    case (Inl e)
    with r Add show ?thesis by (simp add: addTodo_Inl)
  next
    case (Inr vt)
    with r Add show ?thesis by (auto simp: addTodo_Inr toLowerCase_TodoItem)
  qed
next
  case (Update i tx)
  assume r: "mutate mu (m, w) = (Inr (), m', w')"
  show ?thesis
  proof (cases "findIndex (\<lambda>t. todo_id t = i) (todos m)")
    case None
    with r Update show ?thesis by (simp add: updateTodo_missing)
  next
    case (Some k)
    show ?thesis
    proof (cases "validateTodo tx")
      case (Inl e)
      with r Update Some show ?thesis by (simp add: updateTodo_invalid)
    next
      case (Inr vt)
      with r Update Some show ?thesis by (auto simp: updateTodo_found)
    qed
  qed
next
  case (Toggle i)
  assume r: "mutate mu (m, w) = (Inr (), m', w')"
  show ?thesis
  proof (cases "findIndex (\<lambda>t. todo_id t = i) (todos m)")
    case None
    with r Toggle show ?thesis by (simp add: toggleTodo_missing)
  next
    case (Some k)
    with r Toggle show ?thesis by (auto simp: toggleTodo_found)
  qed
next
  case (Delete i)
  assume r: "mutate mu (m, w) = (Inr (), m', w')"
  show ?thesis
  proof (cases "findIndex (\<lambda>t. todo_id t = i) (todos m)")
    case None
    with r Delete show ?thesis by (simp add: deleteTodo_missing)
  next
    case (Some k)
    with r Delete show ?thesis by (auto simp: deleteTodo_found)
  qed
qed

lemma mutate_view:
  assumes "currentSearch m = trim (toLowerCase w term)" and "currentFilter m = status_name st"
    and "mutate mu (m, w) = (Inr (), m', w')"
  shows "filteredTodos m' = lowercased_view (toLowerCase w) (todos m') term st"
proof -
  from mutate_result [OF assms(3)] obtain ts
    where m': "m' = applyFilters w' (m\<lparr>todos := ts\<rparr>)" and l: "toLowerCase w' = toLowerCase w"
    by blast
  have "filteredTodos (applyFilters w' (m\<lparr>todos := ts\<rparr>))
          = lowercased_view (toLowerCase w') (todos (m\<lparr>todos := ts\<rparr>)) term st"
    by (rule applyFilters_lowercased) (simp_all add: assms l)
  then show ?thesis unfolding m' l by simp
qed

lemma loadTodos_view:
  assumes "currentSearch m = trim (toLowerCase (snd (loadTodos (m, w))) term)"
    and "currentFilter m = status_name st"
  shows "filteredTodos (fst (loadTodos (m, w)))
           = lowercased_view (toLowerCase (snd (loadTodos (m, w))))
               (todos (fst (loadTodos (m, w)))) term st"
proof -
  obtain ts w1 where g: "getTodos w = (ts, w1)" by (cases "getTodos w")
  then have s: "snd (loadTodos (m, w)) = w1" unfolding loadTodos_def by simp
  have "filteredTodos (applyFilters w1 (m\<lparr>todos := ts\<rparr>))
          = lowercased_view (toLowerCase w1) (todos (m\<lparr>todos := ts\<rparr>)) term st"
    using assms unfolding s by (intro applyFilters_lowercased) simp_all
  then show ?thesis unfolding loadTodos_def by (simp add: g)
qed

lemma setSearch_setFilter_view:
  "filteredTodos (setFilter w (status_name st) (setSearch w term m))
     = lowercased_view (toLowerCase w) (todos m) term st"
  "filteredTodos (setSearch w term (setFilter w (status_name st) m))
     = lowercased_view (toLowerCase w) (todos m) term st"
proof -
  show "filteredTodos (setFilter w (status_name st) (setSearch w term m))
     = lowercased_view (toLowerCase w) (todos m) term st"
    unfolding setFilter_def setSearch_def
    by (subst applyFilters_lowercased [of _ w "term" st]) simp_all
  show "filteredTodos (setSearch w term (setFilter w (status_name st) m))
     = lowercased_view (toLowerCase w) (todos m) term st"
    unfolding setFilter_def setSearch_def
    by (subst applyFilters_lowercased [of _ w "term" st]) simp_all
qed

lemma str_latin1: "set (str s) \<subseteq> {u. u \<le> 0xFF}"
proof -
  have "(of_nat (of_char c) :: code_unit) \<le> 0xFF" for c
  proof -
    have b: "(of_char c :: nat) < 256" by simp
    then have "(of_char c :: nat) < 65536" by (rule less_trans) simp
    then have "unat (of_nat (of_char c) :: code_unit) = of_char c"
      by (simp add: unat_of_nat)
    moreover have "(of_char c :: nat) \<le> 255"
      using nat_of_char_less_256 [of c] by linarith
    ultimately show ?thesis by (simp add: word_le_nat_alt)
  qed
  then show ?thesis unfolding str_def by auto
qed

text \<open>
  Claim C2, as amended. For every collection, search term and status filter, the view
  that \<open>setSearch\<close> and \<open>setFilter\<close> leave behind (in either order) is the collection
  filtered to the tasks whose lowercased text contains the lowercased and trimmed
  search term, and then filtered by the status: a task is visible exactly when it
  passes both filters, and the status "all" filters nothing. The view is part of the
  state that an operation returns: after every successful mutation it is that view of
  the new collection. Where \<^verbatim>\<open>toLowerCase\<close> acts unit by unit on the term and on the
  texts (as it does on ASCII and Latin-1), this is the view of the tasks whose text
  contains the normalised term as a case-insensitive substring.
\<close>

theorem derived_view_is_search_then_status:
  "filteredTodos (setFilter w (status_name st) (setSearch w term m))
     = lowercased_view (toLowerCase w) (todos m) term st \<and>
   filteredTodos (setSearch w term (setFilter w (status_name st) m))
     = lowercased_view (toLowerCase w) (todos m) term st \<and>
   lowercased_view lower coll term st =
     filter (\<lambda>t. sublist (trim (lower term)) (lower (text t)) \<and> status_holds st t) coll \<and>
   lowercased_view lower coll term Status_all =
     filter (\<lambda>t. sublist (trim (lower term)) (lower (text t))) coll \<and>
   (currentSearch m = trim (toLowerCase w term) \<and> currentFilter m = status_name st \<and>
    mutate mu (m, w) = (Inr (), m', w') \<longrightarrow>
      filteredTodos m' = lowercased_view (toLowerCase w) (todos m') term st) \<and>
   (unitwise (toLowerCase w) f A \<and> set term \<subseteq> A \<and> (\<forall>t \<in> set (todos m). set (text t) \<subseteq> A) \<longrightarrow>
      filteredTodos (setFilter w (status_name st) (setSearch w term m))
        = visible_spec (toLowerCase w) (todos m) term st \<and>
      filteredTodos (setSearch w term (setFilter w (status_name st) m))
        = visible_spec (toLowerCase w) (todos m) term st)"
proof -
  have a: "filteredTodos (setFilter w (status_name st) (setSearch w term m))
             = lowercased_view (toLowerCase w) (todos m) term st"
    "filteredTodos (setSearch w term (setFilter w (status_name st) m))
             = lowercased_view (toLowerCase w) (todos m) term st"
    by (rule setSearch_setFilter_view)+
  have c: "lowercased_view lower coll term st =
     filter (\<lambda>t. sublist (trim (lower term)) (lower (text t)) \<and> status_holds st t) coll"
    unfolding lowercased_view_def filter_by_status_def by (simp add: conj_commute)
  have d: "lowercased_view lower coll term Status_all =
     filter (\<lambda>t. sublist (trim (lower term)) (lower (text t))) coll"
    unfolding lowercased_view_def filter_by_status_def by simp
  have e: "currentSearch m = trim (toLowerCase w term) \<and> currentFilter m = status_name st \<and>
    mutate mu (m, w) = (Inr (), m', w') \<longrightarrow>
      filteredTodos m' = lowercased_view (toLowerCase w) (todos m') term st"
    using mutate_view [of m w "term" st mu m' w'] by blast
  have g: "filteredTodos (setFilter w (status_name st) (setSearch w term m))
        = visible_spec (toLowerCase w) (todos m) term st \<and>
      filteredTodos (setSearch w term (setFilter w (status_name st) m))
        = visible_spec (toLowerCase w) (todos m) term st"
    if "unitwise (toLowerCase w) f A \<and> set term \<subseteq> A \<and> (\<forall>t \<in> set (todos m). set (text t) \<subseteq> A)"
  proof -
    from that have "lowercased_view (toLowerCase w) (todos m) term st
                      = visible_spec (toLowerCase w) (todos m) term st"
      by (intro lowercased_view_unitwise [of _ f A]) simp_all
    with a show ?thesis by simp
  qed
  from a c d e g show ?thesis by blast
qed

lemma toLowerCase_final_sigma:
  "toLowerCase sample_env [0x3BA, 0x3C9, 0x3C2] = [0x3BA, 0x3C9, 0x3C2]"
  by (simp add: sample_env_def sample_toLowerCase_def lower_unit_def cased_def)

lemma kos_in_kostas: "sublist kos kostas"
proof -
  have "kostas = [] @ kos @ [0x3A4, 0x391, 0x3A3]" by (simp add: kos_def kostas_def)
  then show ?thesis unfolding sublist_def by blast
qed

lemma trim_kos: "trim kos = kos"
  by (simp add: trim_def isWhiteSpace_def kos_def)

text \<open>
  Claim C2 as first stated fails: the term KOS is a run of the text KOSTAS, so the task
  is in the view of the specification, but the program's view is empty, because the
  term is lowercased with a final sigma and the text is not.
\<close>

theorem case_insensitive_substring_counterexample:
  "sublist kos (text task_kostas) \<and>
   visible_spec (toLowerCase sample_env) (todos greek_manager) kos Status_all = [task_kostas] \<and>
   filteredTodos (setFilter sample_env (status_name Status_all)
      (setSearch sample_env kos greek_manager)) = [] \<and>
   filteredTodos (setFilter sample_env (status_name Status_all)
      (setSearch sample_env kos greek_manager))
     \<noteq> visible_spec (toLowerCase sample_env) (todos greek_manager) kos Status_all"
proof -
  have s: "sublist kos (text task_kostas)" by (simp add: task_kostas_def kos_in_kostas)
  have n: "normalize_spec (toLowerCase sample_env) kos = [0x3BA, 0x3C9, 0x3C2]"
    by (simp add: normalize_spec_def trim_kos toLowerCase_greek)
  have "ci_substring (toLowerCase sample_env) [0x3BA, 0x3C9, 0x3C2] kostas"
    unfolding ci_substring_def
    using kos_in_kostas by (intro exI [of _ kos]) (simp add: toLowerCase_greek toLowerCase_final_sigma)
  then have v: "visible_spec (toLowerCase sample_env) (todos greek_manager) kos Status_all
                  = [task_kostas]"
    by (simp add: visible_spec_def filter_by_status_def filter_by_search_def n
          greek_manager_def task_kostas_def)
  have c: "filteredTodos (setFilter sample_env (status_name Status_all)
      (setSearch sample_env kos greek_manager)) = []"
    by (simp add: setFilter_def setSearch_def applyFilters_def greek_manager_def Let_def
          toLowerCase_greek trim_samples includes_samples task_kostas_def)
  from s v c show ?thesis by simp
qed

theorem derived_view_is_search_then_status_witness:
  "filteredTodos (setFilter sample_env (status_name Status_pending)
      (setSearch sample_env (str ''  MILK '') sample_manager)) = [task_milk] \<and>
   set (str ''  MILK '') \<subseteq> {u. u \<le> 0xFF} \<and>
   set (text task_milk) \<subseteq> {u. u \<le> 0xFF} \<and> set (text task_dog) \<subseteq> {u. u \<le> 0xFF} \<and>
   visible_spec (toLowerCase sample_env) [task_milk, task_dog] (str ''  MILK '') Status_pending
     = [task_milk] \<and>
   lowercased_view (toLowerCase sample_env) [task_milk, task_dog] (str ''  MILK '') Status_completed
     = [] \<and>
   currentSearch sample_manager = trim (toLowerCase sample_env []) \<and>
   currentFilter sample_manager = status_name Status_all \<and>
   fst (mutate (Delete (todo_id task_milk)) (sample_manager, sample_env)) = Inr () \<and>
   filteredTodos (fst (snd (mutate (Delete (todo_id task_milk)) (sample_manager, sample_env))))
     = lowercased_view (toLowerCase sample_env) [task_dog] [] Status_all"
proof -
  have t: "todos sample_manager = [task_milk, task_dog]" by (simp add: sample_manager_def)
  have e1: "filteredTodos (setFilter sample_env (status_name Status_pending)
              (setSearch sample_env (str ''  MILK '') sample_manager)) = [task_milk]"
    by (simp add: setFilter_def setSearch_def applyFilters_def sample_manager_def Let_def
          toLowerCase_samples trim_samples includes_samples task_milk_def task_dog_def)
  have e2: "filteredTodos (setFilter sample_env (status_name Status_completed)
              (setSearch sample_env (str ''  MILK '') sample_manager)) = []"
    by (simp add: setFilter_def setSearch_def applyFilters_def sample_manager_def Let_def
          toLowerCase_samples trim_samples includes_samples task_milk_def task_dog_def)
  have u: "unitwise (toLowerCase sample_env) lower_unit {u. u \<le> 0xFF}"
    using unitwise_sample by (simp add: sample_env_def)
  have a1: "set (str ''  MILK '') \<subseteq> {u. u \<le> 0xFF}" by (rule str_latin1)
  have a2: "\<forall>t \<in> set (todos sample_manager). set (text t) \<subseteq> {u. u \<le> 0xFF}"
    using str_latin1 by (simp add: sample_manager_def task_milk_def task_dog_def)
  have h1: "currentSearch sample_manager = trim (toLowerCase sample_env [])"
    by (simp add: sample_manager_def toLowerCase_samples trim_def)
  have h2: "currentFilter sample_manager = status_name Status_all"
    by (simp add: sample_manager_def)
  have k: "findIndex (\<lambda>t. todo_id t = todo_id task_milk) (todos sample_manager) = Some 0"
    by (simp add: sample_manager_def)
  obtain m' w' where h3: "mutate (Delete (todo_id task_milk)) (sample_manager, sample_env) = (Inr (), m', w')"
    and t': "todos m' = [task_dog]"
    by (simp add: deleteTodo_found [OF k] t)
  from derived_view_is_search_then_status
         [of sample_env Status_pending "str ''  MILK ''" sample_manager _ _ _ _ _
             lower_unit "{u. u \<le> 0xFF}"] u a1 a2
  have "filteredTodos (setFilter sample_env (status_name Status_pending)
              (setSearch sample_env (str ''  MILK '') sample_manager))
          = visible_spec (toLowerCase sample_env) (todos sample_manager) (str ''  MILK '')
              Status_pending"
    by blast
  then have v: "visible_spec (toLowerCase sample_env) [task_milk, task_dog] (str ''  MILK '')
             Status_pending = [task_milk]"
    unfolding e1 t by simp
  from derived_view_is_search_then_status
         [of sample_env Status_completed "str ''  MILK ''" sample_manager]
  have "filteredTodos (setFilter sample_env (status_name Status_completed)
              (setSearch sample_env (str ''  MILK '') sample_manager))
          = lowercased_view (toLowerCase sample_env) (todos sample_manager) (str ''  MILK '')
              Status_completed"
    by blast
  then have l: "lowercased_view (toLowerCase sample_env) [task_milk, task_dog] (str ''  MILK '')
             Status_completed = []"
    unfolding e2 t by simp
  from derived_view_is_search_then_status
         [of sample_env Status_all "[]" sample_manager _ _ "Delete (todo_id task_milk)" m' w']
       h1 h2 h3
  have "filteredTodos m' = lowercased_view (toLowerCase sample_env) (todos m') [] Status_all"
    by blast
  moreover have "set (text task_milk) \<subseteq> {u. u \<le> 0xFF}" "set (text task_dog) \<subseteq> {u. u \<le> 0xFF}"
    using a2 by (simp_all add: sample_manager_def)
  ultimately show ?thesis using e1 a1 v l h1 h2 h3 t' by simp
qed

end
